theory Spec2Isabelle
  imports Complex_Main "HOL-Library.Product_Lexorder"
begin

section \<open>Data model\<close>

text \<open>
  The rows of the Prisma tables \<^verbatim>\<open>scores\<close>, \<^verbatim>\<open>action_logs\<close> and \<^verbatim>\<open>users\<close>
  (\<^verbatim>\<open>types/index.ts\<close>).  A \<^verbatim>\<open>Date\<close> is its number of milliseconds since the
  epoch, an \<^verbatim>\<open>Int\<close> column is an \<open>int\<close>; that PostgreSQL keeps it within 32
  bits is checked where the code writes it.  Field names that occur in more than
  one interface carry a prefix.
\<close>

record score_row =
  userId :: string
  score :: int
  lastUpdated :: int

record action_log_row =
  log_userId :: string
  log_actionId :: string
  log_scoreIncrement :: int
  log_actionHash :: string
  log_timestamp :: int
  log_ipAddress :: "string option"

record user_row =
  user_id :: string
  username :: string

record database =
  users :: "user_row list"
  scores :: "score_row list"
  actionLogs :: "action_log_row list"

text \<open>\<^verbatim>\<open>ScoreboardEntry\<close>; the cached copy carries the same instant as an ISO string.\<close>

record scoreboard_entry =
  rank :: nat
  entry_userId :: string
  entry_username :: string
  entry_score :: int
  entry_lastUpdated :: int

text \<open>
  \<^verbatim>\<open>ScoreUpdateRequest\<close> as the service receives it.  A JSON number is a rational: it
  need not be an integer.  One call of \<^verbatim>\<open>updateScore(userId, updateData, ipAddress)\<close>
  is an \<open>update_call\<close>.
\<close>

record score_update_request =
  actionId :: string
  scoreIncrement :: rat
  timestamp :: string
  actionHash :: string

record update_call =
  call_userId :: string
  call_data :: score_update_request
  call_ipAddress :: "string option"

text \<open>\<^verbatim>\<open>ScoreUpdateResponse['data']\<close> and \<^verbatim>\<open>UserScoreResponse['data']\<close>.\<close>

record score_update_data =
  upd_userId :: string
  newScore :: int
  upd_rank :: nat

record user_score_data =
  us_userId :: string
  us_username :: string
  us_score :: int
  us_rank :: nat
  totalUsers :: nat

section \<open>What the code runs on\<close>

text \<open>
  What Prisma and PostgreSQL can refuse inside the write transaction: an argument
  that is not a 32-bit integer, an update of a row that does not exist, a score
  that leaves the range of the \<^verbatim>\<open>INTEGER\<close> column, an invalid \<^verbatim>\<open>Date\<close>, a second row
  with the same \<^verbatim>\<open>actionId\<close>.
\<close>

datatype prisma_failure =
    InvalidArgument
  | RecordNotFound
  | IntegerOutOfRange
  | InvalidDate
  | UniqueConstraintFailed

text \<open>
  The library functions the code calls are parameters: the hex SHA-256 digest of a
  text; \<^verbatim>\<open>new Date(text)\<close> as the instant the text denotes, \<open>None\<close> for an invalid
  date; the text a template literal gives a number; the message of the error
  Prisma throws, which may quote the arguments of the call.  \<open>body_schema\<close> tells
  which of the two entry files in \<^verbatim>\<open>main.ts\<close> is started: the first registers the
  update route with a body schema, the second without.
\<close>

record setting =
  sha256_hex :: "string \<Rightarrow> string"
  new_Date :: "string \<Rightarrow> int option"
  number_text :: "rat \<Rightarrow> string"
  prisma_message :: "prisma_failure \<Rightarrow> update_call \<Rightarrow> string"
  body_schema :: bool

section \<open>CacheService\<close>

text \<open>
  The Redis keys the scoreboard paths use.  A rate-limit counter, a number that
  only \<^verbatim>\<open>INCR\<close> writes, is kept with the instant at which its key expires
  (\<^verbatim>\<open>EXPIRE\<close>); the key is alive strictly before that instant.  \<open>redis_up = False\<close> is an
  unreachable Redis: every command throws, and every method of \<^verbatim>\<open>CacheService\<close>
  catches the exception.  The in-process \<^verbatim>\<open>memoryCache\<close> and the hit counters are
  written by these methods and read by none of them; they are left out.
\<close>

record cache_state =
  redis_up :: bool
  scoreboard_top10 :: "scoreboard_entry list option"
  user_score_keys :: "string \<Rightarrow> int option"
  rate_limit_keys :: "string \<Rightarrow> (nat \<times> int) option"

definition getScoreboard :: "cache_state \<Rightarrow> scoreboard_entry list option" where
  "getScoreboard c = (if redis_up c then scoreboard_top10 c else None)"

definition setScoreboard :: "scoreboard_entry list \<Rightarrow> cache_state \<Rightarrow> cache_state" where
  "setScoreboard sb c = (if redis_up c then c\<lparr>scoreboard_top10 := Some sb\<rparr> else c)"

definition cache_getUserScore :: "cache_state \<Rightarrow> string \<Rightarrow> int option" where
  "cache_getUserScore c uid = (if redis_up c then user_score_keys c uid else None)"

definition setUserScore :: "string \<Rightarrow> int \<Rightarrow> cache_state \<Rightarrow> cache_state" where
  "setUserScore uid v c =
     (if redis_up c then c\<lparr>user_score_keys := (user_score_keys c)(uid := Some v)\<rparr> else c)"

definition invalidateScoreboard :: "cache_state \<Rightarrow> cache_state" where
  "invalidateScoreboard c = (if redis_up c then c\<lparr>scoreboard_top10 := None\<rparr> else c)"

definition invalidateUserScore :: "string \<Rightarrow> cache_state \<Rightarrow> cache_state" where
  "invalidateUserScore uid c =
     (if redis_up c then c\<lparr>user_score_keys := (user_score_keys c)(uid := None)\<rparr> else c)"

text \<open>
  \<^verbatim>\<open>getRateLimit\<close>: \<^verbatim>\<open>GET rate_limit:<key>\<close>, 0 when the key is absent, has
  expired, or Redis throws.
\<close>

definition redis_get_counter :: "cache_state \<Rightarrow> string \<Rightarrow> int \<Rightarrow> nat option" where
  "redis_get_counter c k now =
     (case rate_limit_keys c k of
        None \<Rightarrow> None
      | Some (n, expires) \<Rightarrow> if now < expires then Some n else None)"

definition getRateLimit :: "cache_state \<Rightarrow> string \<Rightarrow> int \<Rightarrow> int" where
  "getRateLimit c key now =
     (if redis_up c
      then (case redis_get_counter c (''rate_limit:'' @ key) now of
              None \<Rightarrow> 0
            | Some n \<Rightarrow> int n)
      else 0)"

text \<open>
  \<^verbatim>\<open>incrementRateLimit\<close>: \<^verbatim>\<open>MULTI; INCR rate_limit:<key>; EXPIRE rate_limit:<key> ttl; EXEC\<close>.
  The expiry is set again on every increment, \<open>ttl\<close> seconds from now.
\<close>

definition incrementRateLimit :: "string \<Rightarrow> int \<Rightarrow> int \<Rightarrow> cache_state \<Rightarrow> int \<times> cache_state" where
  "incrementRateLimit key ttl now c =
     (if redis_up c
      then (let k = ''rate_limit:'' @ key;
                n = (case redis_get_counter c k now of None \<Rightarrow> 0 | Some m \<Rightarrow> m) + 1
            in (int n, c\<lparr>rate_limit_keys := (rate_limit_keys c)(k := Some (n, now + ttl * 1000))\<rparr>))
      else (0, c))"

section \<open>ScoreboardService\<close>

text \<open>
  The whole state a request can read or write: the database, the shared cache and
  the scoreboards handed to \<^verbatim>\<open>WebSocketService.broadcastScoreboardUpdate\<close>.
  A request is handled at one instant \<open>now\<close>, which stands for every
  \<^verbatim>\<open>new Date()\<close> it evaluates.  Queries that only read the database do not fail,
  and a number in a JSON body is an integer.
\<close>

record system =
  db :: database
  cache :: cache_state
  broadcasts :: "scoreboard_entry list list"

subsection \<open>getTopScores\<close>

text \<open>
  \<^verbatim>\<open>prisma.score.findMany({ take, orderBy: [{score: 'desc'}, {lastUpdated: 'asc'}] })\<close>:
  an ordered scan on the key \<open>(- score, lastUpdated)\<close>.
\<close>

definition order_key :: "score_row \<Rightarrow> int \<times> int" where
  "order_key r = (- score r, lastUpdated r)"

definition findMany_ordered :: "nat \<Rightarrow> database \<Rightarrow> score_row list" where
  "findMany_ordered limit d = take limit (sort_key order_key (scores d))"

text \<open>The \<^verbatim>\<open>include: { user: { select: { username } } }\<close> join.\<close>

definition username_of :: "database \<Rightarrow> string \<Rightarrow> string" where
  "username_of d uid =
     (case find (\<lambda>u. user_id u = uid) (users d) of None \<Rightarrow> [] | Some u \<Rightarrow> username u)"

definition to_entry :: "database \<Rightarrow> nat \<times> score_row \<Rightarrow> scoreboard_entry" where
  "to_entry d p =
     \<lparr>rank = fst p + 1,
      entry_userId = userId (snd p),
      entry_username = username_of d (userId (snd p)),
      entry_score = score (snd p),
      entry_lastUpdated = lastUpdated (snd p)\<rparr>"

definition load_top :: "nat \<Rightarrow> database \<Rightarrow> scoreboard_entry list" where
  "load_top limit d =
     (let rows = findMany_ordered limit d
      in map (to_entry d) (zip [0 ..< length rows] rows))"

definition getTopScores :: "nat \<Rightarrow> system \<Rightarrow> scoreboard_entry list \<times> system" where
  "getTopScores limit s =
     (case (if limit = 10 then getScoreboard (cache s) else None) of
        Some cached \<Rightarrow> (cached, s)
      | None \<Rightarrow>
          (let result = load_top limit (db s)
           in (result, if limit = 10 then s\<lparr>cache := setScoreboard result (cache s)\<rparr> else s)))"

subsection \<open>getUserScore\<close>

text \<open>
  \<^verbatim>\<open>prisma.score.count({ where: { OR: [{score: {gt: s}}, {AND: [{score: s}, {lastUpdated: {lt: t}}]}] } }) + 1\<close>
\<close>

definition rank_count :: "database \<Rightarrow> int \<Rightarrow> int \<Rightarrow> nat" where
  "rank_count d s t =
     length (filter (\<lambda>r. score r > s \<or> (score r = s \<and> lastUpdated r < t)) (scores d)) + 1"

definition getTotalUsers :: "database \<Rightarrow> nat" where
  "getTotalUsers d = length (users d)"

text \<open>
  On a cache hit the tie-break bound is \<^verbatim>\<open>new Date()\<close> (\<open>now\<close>); on a miss it is the
  row's own \<^verbatim>\<open>lastUpdated\<close>.
\<close>

definition getUserScore :: "string \<Rightarrow> int \<Rightarrow> system \<Rightarrow> user_score_data option \<times> system" where
  "getUserScore uid now s =
     (case cache_getUserScore (cache s) uid of
        Some cachedScore \<Rightarrow>
          (case find (\<lambda>u. user_id u = uid) (users (db s)) of
             None \<Rightarrow> (None, s)
           | Some user \<Rightarrow>
               (Some \<lparr>us_userId = uid,
                      us_username = username user,
                      us_score = cachedScore,
                      us_rank = rank_count (db s) cachedScore now,
                      totalUsers = getTotalUsers (db s)\<rparr>, s))
      | None \<Rightarrow>
          (case find (\<lambda>r. userId r = uid) (scores (db s)) of
             None \<Rightarrow> (None, s)
           | Some row \<Rightarrow>
               (Some \<lparr>us_userId = userId row,
                      us_username = username_of (db s) (userId row),
                      us_score = score row,
                      us_rank = rank_count (db s) (score row) (lastUpdated row),
                      totalUsers = getTotalUsers (db s)\<rparr>,
                s\<lparr>cache := setUserScore uid (score row) (cache s)\<rparr>)))"

subsection \<open>updateScore\<close>

text \<open>
  What \<^verbatim>\<open>updateScore\<close> throws: its own three \<^verbatim>\<open>Error\<close>s, and what Prisma raises
  inside the transaction.
\<close>

datatype service_error =
    ActionAlreadyProcessed
  | InvalidActionHash
  | ScoreIncrementOutOfRange
  | PrismaError prisma_failure

text \<open>
  \<^verbatim>\<open>crypto.createHash('sha256').update(`${actionId}-${scoreIncrement}-${timestamp}`).digest('hex')\<close>.
  No key or secret enters the digest.
\<close>

definition generateActionHash :: "setting \<Rightarrow> string \<Rightarrow> rat \<Rightarrow> string \<Rightarrow> string" where
  "generateActionHash E aid inc ts = sha256_hex E (aid @ ''-'' @ number_text E inc @ ''-'' @ ts)"

text \<open>
  \<^verbatim>\<open>tx.score.update({ where: { userId }, data: { score: { increment }, lastUpdated: new Date() } })\<close>.
  Prisma refuses an increment that is not a 32-bit integer; the update finds the
  row of that \<^verbatim>\<open>userId\<close> or fails; PostgreSQL refuses a sum outside the range of
  the column.
\<close>

definition in_int32 :: "int \<Rightarrow> bool" where
  "in_int32 x = (- 2147483648 \<le> x \<and> x \<le> 2147483647)"

fun update_score_row :: "string \<Rightarrow> (score_row \<Rightarrow> score_row) \<Rightarrow> score_row list \<Rightarrow> (score_row \<times> score_row list) option" where
  "update_score_row uid f [] = None"
| "update_score_row uid f (r # rs) =
     (if userId r = uid then Some (f r, f r # rs)
      else (case update_score_row uid f rs of
              None \<Rightarrow> None
            | Some (u, rs') \<Rightarrow> Some (u, r # rs')))"

definition tx_score_update :: "string \<Rightarrow> rat \<Rightarrow> int \<Rightarrow> database \<Rightarrow> service_error + (score_row \<times> database)" where
  "tx_score_update uid inc now d =
     (if inc \<in> \<int> \<and> in_int32 \<lfloor>inc\<rfloor>
      then (case update_score_row uid (\<lambda>r. r\<lparr>score := score r + \<lfloor>inc\<rfloor>, lastUpdated := now\<rparr>) (scores d) of
              None \<Rightarrow> Inl (PrismaError RecordNotFound)
            | Some (row, rows) \<Rightarrow>
                if in_int32 (score row) then Inr (row, d\<lparr>scores := rows\<rparr>)
                else Inl (PrismaError IntegerOutOfRange))
      else Inl (PrismaError InvalidArgument))"

text \<open>
  \<^verbatim>\<open>tx.actionLog.create\<close>.  Prisma refuses an invalid \<^verbatim>\<open>Date\<close>; the column
  \<^verbatim>\<open>actionId\<close> is \<^verbatim>\<open>@unique\<close>.
\<close>

definition findUnique_action :: "database \<Rightarrow> string \<Rightarrow> action_log_row option" where
  "findUnique_action d aid = find (\<lambda>l. log_actionId l = aid) (actionLogs d)"

definition tx_actionLog_create ::
  "setting \<Rightarrow> string \<Rightarrow> score_update_request \<Rightarrow> string option \<Rightarrow> database \<Rightarrow> service_error + database" where
  "tx_actionLog_create E uid req ip d =
     (case new_Date E (timestamp req) of
        None \<Rightarrow> Inl (PrismaError InvalidDate)
      | Some t \<Rightarrow>
          (case findUnique_action d (actionId req) of
             Some l \<Rightarrow> Inl (PrismaError UniqueConstraintFailed)
           | None \<Rightarrow>
               Inr (d\<lparr>actionLogs := actionLogs d @
                      [\<lparr>log_userId = uid, log_actionId = actionId req,
                        log_scoreIncrement = \<lfloor>scoreIncrement req\<rfloor>,
                        log_actionHash = actionHash req,
                        log_timestamp = t, log_ipAddress = ip\<rparr>]\<rparr>)))"

text \<open>
  \<^verbatim>\<open>prisma.$transaction(async (tx) => { ... })\<close>: the callback runs on the database;
  when it throws, the database is as it was before.
\<close>

definition transaction :: "(database \<Rightarrow> 'e + ('a \<times> database)) \<Rightarrow> database \<Rightarrow> ('e + 'a) \<times> database" where
  "transaction f d = (case f d of Inl e \<Rightarrow> (Inl e, d) | Inr (v, d') \<Rightarrow> (Inr v, d'))"

definition update_tx ::
  "setting \<Rightarrow> string \<Rightarrow> score_update_request \<Rightarrow> string option \<Rightarrow> int \<Rightarrow> database
     \<Rightarrow> service_error + (score_row \<times> database)" where
  "update_tx E uid req ip now d =
     (case tx_score_update uid (scoreIncrement req) now d of
        Inl e \<Rightarrow> Inl e
      | Inr (updatedScore, d1) \<Rightarrow>
          (case tx_actionLog_create E uid req ip d1 of
             Inl e \<Rightarrow> Inl e
           | Inr d2 \<Rightarrow> Inr (updatedScore, d2)))"

text \<open>
  The part of \<^verbatim>\<open>updateScore\<close> before the transaction (source lines 150 to 172):
  uniqueness of the action id, then the hash, then the bounds of the increment.
\<close>

definition validate_update :: "setting \<Rightarrow> database \<Rightarrow> score_update_request \<Rightarrow> service_error option" where
  "validate_update E d req =
     (case findUnique_action d (actionId req) of
        Some existingAction \<Rightarrow> Some ActionAlreadyProcessed
      | None \<Rightarrow>
          if actionHash req \<noteq> generateActionHash E (actionId req) (scoreIncrement req) (timestamp req)
          then Some InvalidActionHash
          else if scoreIncrement req < 1 \<or> scoreIncrement req > 1000
          then Some ScoreIncrementOutOfRange
          else None)"

text \<open>
  The part from the transaction on (source lines 174 to 228): the rank is counted
  against the updated row's own \<^verbatim>\<open>lastUpdated\<close>, the two cache keys are deleted and
  the user's score is cached again.
\<close>

definition commit_update ::
  "setting \<Rightarrow> string \<Rightarrow> score_update_request \<Rightarrow> string option \<Rightarrow> int \<Rightarrow> system
     \<Rightarrow> (service_error + score_update_data) \<times> system" where
  "commit_update E uid req ip now s =
     (case transaction (update_tx E uid req ip now) (db s) of
        (Inl e, d') \<Rightarrow> (Inl e, s\<lparr>db := d'\<rparr>)
      | (Inr result, d') \<Rightarrow>
          (Inr \<lparr>upd_userId = userId result,
                newScore = score result,
                upd_rank = rank_count d' (score result) (lastUpdated result)\<rparr>,
           s\<lparr>db := d',
             cache := setUserScore uid (score result)
                        (invalidateUserScore uid (invalidateScoreboard (cache s)))\<rparr>))"

definition updateScore ::
  "setting \<Rightarrow> string \<Rightarrow> score_update_request \<Rightarrow> string option \<Rightarrow> int \<Rightarrow> system
     \<Rightarrow> (service_error + score_update_data) \<times> system" where
  "updateScore E uid req ip now s =
     (case validate_update E (db s) req of
        Some e \<Rightarrow> (Inl e, s)
      | None \<Rightarrow> commit_update E uid req ip now s)"

subsection \<open>Calls that overlap\<close>

text \<open>
  \<^verbatim>\<open>updateScore\<close> awaits \<^verbatim>\<open>actionLog.findUnique\<close> and, later, the transaction; other
  calls can run in between.  \<open>Check i c\<close>: call number \<open>i\<close> runs up to the
  transaction; it ends there with an error or waits.  \<open>Transact i now\<close>: the waiting
  call \<open>i\<close> runs its transaction and the rest of \<^verbatim>\<open>updateScore\<close>, which reads and
  writes no table but \<^verbatim>\<open>scores\<close> for the rank and the cache.  The result is the list
  of finished calls with what they returned or threw.
\<close>

datatype service_step = Check nat update_call | Transact nat int

fun run_overlapped ::
  "setting \<Rightarrow> service_step list \<Rightarrow> (nat \<times> update_call) list \<Rightarrow> system
     \<Rightarrow> (update_call \<times> (service_error + score_update_data)) list \<times> system" where
  "run_overlapped E [] waiting s = ([], s)"
| "run_overlapped E (Check i c # rest) waiting s =
     (case validate_update E (db s) (call_data c) of
        Some e \<Rightarrow>
          (let (done, s') = run_overlapped E rest waiting s
           in ((c, Inl e) # done, s'))
      | None \<Rightarrow> run_overlapped E rest ((i, c) # waiting) s)"
| "run_overlapped E (Transact i now # rest) waiting s =
     (case map_of waiting i of
        None \<Rightarrow> run_overlapped E rest waiting s
      | Some c \<Rightarrow>
          (let (r, s1) = commit_update E (call_userId c) (call_data c) (call_ipAddress c) now s;
               (done, s') = run_overlapped E rest (filter (\<lambda>p. fst p \<noteq> i) waiting) s1
           in ((c, r) # done, s')))"

text \<open>The finished calls that carried the action id \<open>n\<close> and returned.\<close>

definition returned :: "service_error + score_update_data \<Rightarrow> bool" where
  "returned r = (case r of Inl e \<Rightarrow> False | Inr v \<Rightarrow> True)"

definition applications :: "string \<Rightarrow> (update_call \<times> (service_error + score_update_data)) list \<Rightarrow> nat" where
  "applications n done = length (filter (\<lambda>(c, r). actionId (call_data c) = n \<and> returned r) done)"

section \<open>HTTP layer\<close>

subsection \<open>Replies\<close>

text \<open>
  A reply is the status and the payload given to \<^verbatim>\<open>reply.send\<close>: the code of an
  error, the \<^verbatim>\<open>retryAfter\<close> of the limiter, or the data of an accepted update.
\<close>

datatype reply_body =
    ErrorBody string
  | TooManyRequests int
  | UpdateSuccess score_update_data

datatype http_reply = Reply (status: nat) (body: reply_body)

text \<open>A \<^verbatim>\<open>preHandler\<close> hook either sends a reply, which ends the request, or returns.\<close>

datatype hook_result = Sent http_reply | Continue

subsection \<open>middleware/auth.ts\<close>

text \<open>
  The bearer header after \<^verbatim>\<open>jwt.verify\<close>: absent, refused, or the decoded payload.
  \<^verbatim>\<open>authenticateToken\<close> stores an object with exactly the properties
  \<^verbatim>\<open>userId\<close>, \<^verbatim>\<open>username\<close> and \<^verbatim>\<open>email\<close> in \<^verbatim>\<open>request.user\<close>
  (\<^verbatim>\<open>AuthenticatedRequest\<close>).  \<open>properties\<close> is that object as untyped code
  (\<^verbatim>\<open>request as any\<close>) sees it: reading a property it does not have gives \<open>None\<close>
  (\<^verbatim>\<open>undefined\<close>).
\<close>

record authenticated_user =
  auth_userId :: string
  auth_username :: string
  auth_email :: string

datatype bearer = NoToken | BadToken | Verified authenticated_user

definition authenticateToken :: "bearer \<Rightarrow> http_reply + authenticated_user" where
  "authenticateToken b =
     (case b of
        NoToken \<Rightarrow> Inl (Reply 401 (ErrorBody ''MISSING_TOKEN''))
      | BadToken \<Rightarrow> Inl (Reply 401 (ErrorBody ''INVALID_TOKEN''))
      | Verified decoded \<Rightarrow>
          Inr \<lparr>auth_userId = auth_userId decoded,
               auth_username = auth_username decoded,
               auth_email = auth_email decoded\<rparr>)"

definition properties :: "authenticated_user \<Rightarrow> (string \<times> string) list" where
  "properties u =
     [(''userId'', auth_userId u), (''username'', auth_username u), (''email'', auth_email u)]"

definition read_property :: "authenticated_user option \<Rightarrow> string \<Rightarrow> string option" where
  "read_property user name = (case user of None \<Rightarrow> None | Some u \<Rightarrow> map_of (properties u) name)"

text \<open>\<^verbatim>\<open>x || 'anonymous'\<close>: the default replaces \<^verbatim>\<open>undefined\<close> and the empty string.\<close>

definition or_default :: "string option \<Rightarrow> string \<Rightarrow> string" where
  "or_default v dflt = (case v of None \<Rightarrow> dflt | Some x \<Rightarrow> if x = [] then dflt else x)"

subsection \<open>middleware/rateLimit.ts\<close>

record rate_limit_options =
  maxRequests :: int
  windowMs :: int
  keyGenerator :: "authenticated_user option \<Rightarrow> string"

text \<open>\<^verbatim>\<open>Math.ceil(windowMs / 1000)\<close>\<close>

definition window_seconds :: "int \<Rightarrow> int" where
  "window_seconds ms = - ((- ms) div 1000)"

text \<open>
  The hook awaits \<^verbatim>\<open>getRateLimit\<close>, compares, and then awaits
  \<^verbatim>\<open>incrementRateLimit\<close>.  \<open>rateLimit_decide\<close> is the part after the first await, on
  the count that was read; \<open>rateLimit\<close> is the hook run without another request
  in between.
\<close>

definition rateLimit_decide :: "rate_limit_options \<Rightarrow> string \<Rightarrow> int \<Rightarrow> int \<Rightarrow> cache_state \<Rightarrow> hook_result \<times> cache_state" where
  "rateLimit_decide opts key currentCount now c =
     (if currentCount \<ge> maxRequests opts
      then (Sent (Reply 429 (TooManyRequests (window_seconds (windowMs opts)))), c)
      else (Continue, snd (incrementRateLimit key (window_seconds (windowMs opts)) now c)))"

definition rateLimit :: "rate_limit_options \<Rightarrow> authenticated_user option \<Rightarrow> int \<Rightarrow> cache_state \<Rightarrow> hook_result \<times> cache_state" where
  "rateLimit opts user now c =
     (let key = keyGenerator opts user
      in rateLimit_decide opts key (getRateLimit c key now) now c)"

text \<open>The pre-configured limiters whose key is built from \<^verbatim>\<open>request.user?.id\<close>.\<close>

definition scoreUpdate_limiter :: rate_limit_options where
  "scoreUpdate_limiter =
     \<lparr>maxRequests = 10, windowMs = 60 * 1000,
      keyGenerator = (\<lambda>user. ''rate_limit:score_update:'' @ or_default (read_property user ''id'') ''anonymous'')\<rparr>"

definition cacheManagement_limiter :: rate_limit_options where
  "cacheManagement_limiter =
     \<lparr>maxRequests = 20, windowMs = 60 * 1000,
      keyGenerator = (\<lambda>user. ''rate_limit:cache:'' @ or_default (read_property user ''id'') ''anonymous'')\<rparr>"

subsection \<open>ScoreboardController.updateScore\<close>

text \<open>
  The JSON body; a property may be absent, and one that is present has the JSON
  type \<^verbatim>\<open>ScoreUpdateRequest\<close> or the schema gives it.  \<^verbatim>\<open>!x\<close> holds of an absent
  property, of the empty string and of 0.
\<close>

record update_body =
  body_actionId :: "string option"
  body_scoreIncrement :: "rat option"
  body_timestamp :: "string option"
  body_actionHash :: "string option"
  body_score :: "rat option"

text \<open>\<^verbatim>\<open>message.includes(phrase)\<close>\<close>

fun starts_with :: "string \<Rightarrow> string \<Rightarrow> bool" where
  "starts_with xs [] = True"
| "starts_with [] (c # cs) = False"
| "starts_with (x # xs) (c # cs) = (x = c \<and> starts_with xs cs)"

fun includes_phrase :: "string \<Rightarrow> string \<Rightarrow> bool" where
  "includes_phrase [] phrase = (phrase = [])"
| "includes_phrase (x # xs) phrase = (starts_with (x # xs) phrase \<or> includes_phrase xs phrase)"

text \<open>The message of what \<^verbatim>\<open>updateScore\<close> threw, and the code the \<^verbatim>\<open>catch\<close> block picks from it.\<close>

definition error_message :: "setting \<Rightarrow> update_call \<Rightarrow> service_error \<Rightarrow> string" where
  "error_message E c e =
     (case e of
        ActionAlreadyProcessed \<Rightarrow> ''Action ID has already been processed''
      | InvalidActionHash \<Rightarrow> ''Invalid action hash''
      | ScoreIncrementOutOfRange \<Rightarrow> ''Score increment must be between 1 and 1000''
      | PrismaError f \<Rightarrow> prisma_message E f c)"

definition errorCode :: "string \<Rightarrow> string" where
  "errorCode msg =
     (if includes_phrase msg ''already been processed'' then ''DUPLICATE_ACTION''
      else if includes_phrase msg ''Invalid action hash'' then ''INVALID_ACTION_HASH''
      else if includes_phrase msg ''Score increment'' then ''INVALID_SCORE_INCREMENT''
      else ''SCORE_UPDATE_FAILED'')"

definition broadcastScoreboardUpdate :: "scoreboard_entry list \<Rightarrow> system \<Rightarrow> system" where
  "broadcastScoreboardUpdate sb s = s\<lparr>broadcasts := broadcasts s @ [sb]\<rparr>"

definition controller_updateScore ::
  "setting \<Rightarrow> authenticated_user \<Rightarrow> update_body \<Rightarrow> string option \<Rightarrow> int \<Rightarrow> system \<Rightarrow> http_reply \<times> system" where
  "controller_updateScore E user b ip now s =
     (case (body_actionId b, body_scoreIncrement b, body_timestamp b, body_actionHash b) of
        (Some aid, Some inc, Some ts, Some h) \<Rightarrow>
          if aid = [] \<or> inc = 0 \<or> ts = [] \<or> h = []
          then (Reply 400 (ErrorBody ''MISSING_FIELDS''), s)
          else
            (case updateScore E (auth_userId user)
                    \<lparr>actionId = aid, scoreIncrement = inc, timestamp = ts, actionHash = h\<rparr>
                    ip now s of
               (Inl e, s') \<Rightarrow>
                 (Reply 400 (ErrorBody (errorCode (error_message E
                    \<lparr>call_userId = auth_userId user,
                     call_data = \<lparr>actionId = aid, scoreIncrement = inc, timestamp = ts, actionHash = h\<rparr>,
                     call_ipAddress = ip\<rparr> e))), s')
             | (Inr result, s') \<Rightarrow>
                 (let (updatedScoreboard, s'') = getTopScores 10 s'
                  in (Reply 200 (UpdateSuccess result),
                      broadcastScoreboardUpdate updatedScoreboard s'')))
      | _ \<Rightarrow> (Reply 400 (ErrorBody ''MISSING_FIELDS''), s))"

subsection \<open>The route \<^verbatim>\<open>POST /api/scoreboard/update\<close>\<close>

text \<open>
  The body schema of the first entry file (\<^verbatim>\<open>main.ts\<close> lines 511 to 532):
  \<^verbatim>\<open>required: ['actionHash', 'score']\<close>, \<^verbatim>\<open>actionHash\<close> a string, \<^verbatim>\<open>score\<close> an integer
  that is at least 0.
\<close>

definition schema_valid :: "update_body \<Rightarrow> bool" where
  "schema_valid b =
     (case (body_actionHash b, body_score b) of
        (Some h, Some v) \<Rightarrow> v \<in> \<int> \<and> 0 \<le> v
      | _ \<Rightarrow> False)"

text \<open>
  Fastify validates the body before the \<^verbatim>\<open>preHandler\<close> hooks run; the error handler
  of the server answers every error it is given with 500.  Then
  \<^verbatim>\<open>preHandler: [authenticateToken, rateLimiters.scoreUpdate]\<close>, then the controller.
\<close>

record update_http_request =
  authorization :: bearer
  request_ip :: "string option"
  json_body :: update_body

definition post_update :: "setting \<Rightarrow> update_http_request \<Rightarrow> int \<Rightarrow> system \<Rightarrow> http_reply \<times> system" where
  "post_update E rq now s =
     (if body_schema E \<and> \<not> schema_valid (json_body rq)
      then (Reply 500 (ErrorBody ''INTERNAL_SERVER_ERROR''), s)
      else
        (case authenticateToken (authorization rq) of
           Inl r \<Rightarrow> (r, s)
         | Inr user \<Rightarrow>
             (case rateLimit scoreUpdate_limiter (Some user) now (cache s) of
                (Sent r, c') \<Rightarrow> (r, s\<lparr>cache := c'\<rparr>)
              | (Continue, c') \<Rightarrow>
                  controller_updateScore E user (json_body rq) (request_ip rq) now (s\<lparr>cache := c'\<rparr>))))"

subsection \<open>Sequences of requests\<close>

text \<open>
  Requests handled one after another, each at its own instant, and the number of
  them that present the action id \<open>n\<close> and are answered 200.
\<close>

fun run_posts :: "setting \<Rightarrow> (update_http_request \<times> int) list \<Rightarrow> system \<Rightarrow> http_reply list \<times> system" where
  "run_posts E [] s = ([], s)"
| "run_posts E (p # rest) s =
     (let (r, s1) = post_update E (fst p) (snd p) s;
          (rs, s2) = run_posts E rest s1
      in (r # rs, s2))"

definition presents :: "string \<Rightarrow> update_http_request \<Rightarrow> bool" where
  "presents n rq = (body_actionId (json_body rq) = Some n)"

definition applied :: "string \<Rightarrow> (update_http_request \<times> int) list \<Rightarrow> http_reply list \<Rightarrow> nat" where
  "applied n ps rs = length (filter (\<lambda>(p, r). presents n (fst p) \<and> status r = 200) (zip ps rs))"

subsection \<open>Counting admitted requests\<close>

text \<open>
  The Redis key of the score-update limiter (\<^verbatim>\<open>getRateLimit\<close> and
  \<^verbatim>\<open>incrementRateLimit\<close> put \<^verbatim>\<open>rate_limit:\<close> in front of the hook's key) and the
  value a \<^verbatim>\<open>GET\<close> of it gives at an instant.  A request is admitted when it got
  past the limiter: the controller answered it, with 200 or 400.  \<open>sent_by uid\<close>:
  the request carries a verified token of the identity \<open>uid\<close>.  \<open>admitted_by\<close>
  counts the admitted requests of one identity with arrival time in \<open>[lo, hi)\<close>,
  \<open>admitted_in\<close> those of all identities.
\<close>

definition score_update_key :: string where
  "score_update_key = ''rate_limit:rate_limit:score_update:anonymous''"

definition score_update_count :: "cache_state \<Rightarrow> int \<Rightarrow> nat" where
  "score_update_count c now =
     (case redis_get_counter c score_update_key now of None \<Rightarrow> 0 | Some n \<Rightarrow> n)"

definition admitted :: "http_reply \<Rightarrow> bool" where
  "admitted r = (status r = 200 \<or> status r = 400)"

definition sent_by :: "string \<Rightarrow> update_http_request \<Rightarrow> bool" where
  "sent_by uid rq =
     (case authorization rq of
        Verified u \<Rightarrow> auth_userId u = uid
      | NoToken \<Rightarrow> False
      | BadToken \<Rightarrow> False)"

definition admitted_in :: "int \<Rightarrow> int \<Rightarrow> (update_http_request \<times> int) list \<Rightarrow> http_reply list \<Rightarrow> nat" where
  "admitted_in lo hi ps rs =
     length (filter (\<lambda>(p, r). lo \<le> snd p \<and> snd p < hi \<and> admitted r) (zip ps rs))"

definition admitted_by :: "string \<Rightarrow> int \<Rightarrow> int \<Rightarrow> (update_http_request \<times> int) list \<Rightarrow> http_reply list \<Rightarrow> nat" where
  "admitted_by uid lo hi ps rs =
     length (filter (\<lambda>(p, r). sent_by uid (fst p) \<and> lo \<le> snd p \<and> snd p < hi \<and> admitted r) (zip ps rs))"

text \<open>
  The Redis key under which the limiter counts the requests of a verified user,
  and what is asked of it at the start of a run: when present, it expires no later
  than one window after \<open>t0\<close>, as its last increment was at or before \<open>t0\<close>.
\<close>

definition limiter_key :: "authenticated_user \<Rightarrow> string" where
  "limiter_key u = ''rate_limit:'' @ keyGenerator scoreUpdate_limiter (Some u)"

definition counter_fresh :: "authenticated_user \<Rightarrow> int \<Rightarrow> cache_state \<Rightarrow> bool" where
  "counter_fresh u t0 c =
     (case rate_limit_keys c (limiter_key u) of
        None \<Rightarrow> True
      | Some (n, expires) \<Rightarrow> expires \<le> t0 + 60000)"

text \<open>
  The counter key, when present, expires no later than one window after \<open>t0\<close>:
  its last increment was at or before \<open>t0\<close>.
\<close>

definition counter_set_by :: "int \<Rightarrow> cache_state \<Rightarrow> bool" where
  "counter_set_by t0 c =
     (case rate_limit_keys c score_update_key of
        None \<Rightarrow> True
      | Some (n, expires) \<Rightarrow> expires \<le> t0 + 60000)"

text \<open>
  The hook run by a list of requests one after another, and by two requests whose
  \<^verbatim>\<open>await getRateLimit\<close> both return before either goes on.
\<close>

fun run_hooks ::
  "rate_limit_options \<Rightarrow> (authenticated_user option \<times> int) list \<Rightarrow> cache_state
     \<Rightarrow> hook_result list \<times> cache_state" where
  "run_hooks opts [] c = ([], c)"
| "run_hooks opts (p # rest) c =
     (let (r, c1) = rateLimit opts (fst p) (snd p) c;
          (rs, c2) = run_hooks opts rest c1
      in (r # rs, c2))"

definition overlapped_pair ::
  "rate_limit_options \<Rightarrow> authenticated_user option \<Rightarrow> authenticated_user option \<Rightarrow> int \<Rightarrow> cache_state
     \<Rightarrow> hook_result \<times> hook_result \<times> cache_state" where
  "overlapped_pair opts u1 u2 now c =
     (let k1 = keyGenerator opts u1;
          k2 = keyGenerator opts u2;
          n1 = getRateLimit c k1 now;
          n2 = getRateLimit c k2 now;
          (r1, c1) = rateLimit_decide opts k1 n1 now c;
          (r2, c2) = rateLimit_decide opts k2 n2 now c1
      in (r1, r2, c2))"

subsection \<open>Rankings\<close>

text \<open>
  \<open>ranks_before a b\<close>: \<open>a\<close> may stand above \<open>b\<close> in a ranking, by higher score, or
  by equal score and a last update that is not later.  A ranking is in order when
  this holds of every earlier and later entry, and has at most 10 entries.
\<close>

definition ranks_before :: "scoreboard_entry \<Rightarrow> scoreboard_entry \<Rightarrow> bool" where
  "ranks_before a b =
     (entry_score a > entry_score b \<or>
      (entry_score a = entry_score b \<and> entry_lastUpdated a \<le> entry_lastUpdated b))"

definition ranking_ok :: "scoreboard_entry list \<Rightarrow> bool" where
  "ranking_ok R = (sorted_wrt ranks_before R \<and> length R \<le> 10)"

text \<open>
  The states the server can be in.  It starts with no cached scoreboard and
  nothing broadcast.  From then on: an update request is handled; the scoreboard
  is read (\<^verbatim>\<open>GET /api/scoreboard\<close>); a user's score is read; a registration or
  anything else rewrites the database; the scoreboard key is deleted or expires;
  the other keys and the reachability of Redis change in any way; a fresh
  scoreboard is broadcast (after a registration).
\<close>
inductive reachable :: "setting \<Rightarrow> system \<Rightarrow> bool"
  for E :: setting where
  start: "scoreboard_top10 c = None \<Longrightarrow> reachable E \<lparr>db = d, cache = c, broadcasts = []\<rparr>"
| update: "reachable E s \<Longrightarrow> reachable E (snd (post_update E rq now s))"
| scoreboard: "reachable E s \<Longrightarrow> reachable E (snd (getTopScores 10 s))"
| user_score: "reachable E s \<Longrightarrow> reachable E (snd (getUserScore uid now s))"
| store: "reachable E s \<Longrightarrow> reachable E (s\<lparr>db := d\<rparr>)"
| expire: "reachable E s \<Longrightarrow> reachable E (s\<lparr>cache := (cache s)\<lparr>scoreboard_top10 := None\<rparr>\<rparr>)"
| other_keys: "reachable E s \<Longrightarrow>
     reachable E (s\<lparr>cache := (cache s)\<lparr>redis_up := up, user_score_keys := us, rate_limit_keys := rl\<rparr>\<rparr>)"
| announce: "reachable E s \<Longrightarrow>
     reachable E (broadcastScoreboardUpdate (fst (getTopScores 10 s)) (snd (getTopScores 10 s)))"

text \<open>What holds in every such state: the cached scoreboard and every broadcast are in order.\<close>

definition cached_ok :: "system \<Rightarrow> bool" where
  "cached_ok s = (case scoreboard_top10 (cache s) of None \<Rightarrow> True | Some R \<Rightarrow> ranking_ok R)"

definition rankings_ok :: "system \<Rightarrow> bool" where
  "rankings_ok s = (cached_ok s \<and> list_all ranking_ok (broadcasts s))"

subsection \<open>Reading the body\<close>

text \<open>
  The controller's test \<^verbatim>\<open>!actionId || !scoreIncrement || !timestamp || !actionHash\<close>
  as a predicate of the body, and the request it passes on when the test fails.
\<close>

definition missing_fields :: "update_body \<Rightarrow> bool" where
  "missing_fields b =
     (body_actionId b = None \<or> body_actionId b = Some [] \<or>
      body_scoreIncrement b = None \<or> body_scoreIncrement b = Some 0 \<or>
      body_timestamp b = None \<or> body_timestamp b = Some [] \<or>
      body_actionHash b = None \<or> body_actionHash b = Some [])"

definition as_request :: "update_body \<Rightarrow> score_update_request" where
  "as_request b =
     \<lparr>actionId = (case body_actionId b of Some x \<Rightarrow> x | None \<Rightarrow> []),
      scoreIncrement = (case body_scoreIncrement b of Some x \<Rightarrow> x | None \<Rightarrow> 0),
      timestamp = (case body_timestamp b of Some x \<Rightarrow> x | None \<Rightarrow> []),
      actionHash = (case body_actionHash b of Some x \<Rightarrow> x | None \<Rightarrow> [])\<rparr>"

section \<open>The specification's formulas\<close>

text \<open>
  Two formulas written from the words of the specification, to be compared with
  what the code computes.  The MAC of an action token,
  \<^verbatim>\<open>H(secret || nonce || increment || issued_at)\<close>:
\<close>

definition spec_mac :: "setting \<Rightarrow> string \<Rightarrow> score_update_request \<Rightarrow> string" where
  "spec_mac E secret req =
     sha256_hex E (secret @ actionId req @ number_text E (scoreIncrement req) @ timestamp req)"

text \<open>
  The rank of an identity \<open>i\<close> with score \<open>s\<close> and last update \<open>t\<close>,
  \<^verbatim>\<open>1 + |{ j : score_j > s or (score_j = s and last_updated_j < t) }|\<close>:
\<close>

definition spec_rank :: "database \<Rightarrow> string \<Rightarrow> nat option" where
  "spec_rank d uid =
     (case find (\<lambda>r. userId r = uid) (scores d) of
        None \<Rightarrow> None
      | Some i \<Rightarrow>
          Some (1 + length (filter (\<lambda>j. score j > score i \<or>
                                     (score j = score i \<and> lastUpdated j < lastUpdated i))
                             (scores d))))"

section \<open>Sample data\<close>

text \<open>
  Stand-ins used where a statement is evaluated on a concrete input: an injective
  digest in place of SHA-256; a \<^verbatim>\<open>Date\<close> parser that knows two ISO strings; the
  decimal text of an integer below \<^verbatim>\<open>1e21\<close>, which is what a template literal gives
  it; messages for Prisma's errors.
\<close>

definition toy_digest :: "string \<Rightarrow> string" where
  "toy_digest x = CHR ''#'' # x"

definition toy_date :: "string \<Rightarrow> int option" where
  "toy_date x =
     (if x = ''1970-01-01T00:00:00.000Z'' then Some 0
      else if x = ''2024-01-15T10:30:00.000Z'' then Some 1705314600000
      else None)"

fun digits :: "nat \<Rightarrow> string" where
  "digits n = (if n < 10 then [''0123456789'' ! n] else digits (n div 10) @ [''0123456789'' ! (n mod 10)])"

declare digits.simps [simp del]

definition toy_number_text :: "rat \<Rightarrow> string" where
  "toy_number_text x =
     (if x \<in> \<int> \<and> \<bar>x\<bar> < 1000000000000000000000
      then (if x < 0 then CHR ''-'' # digits (nat (- \<lfloor>x\<rfloor>)) else digits (nat \<lfloor>x\<rfloor>))
      else ''other'')"

definition toy_prisma_message :: "prisma_failure \<Rightarrow> update_call \<Rightarrow> string" where
  "toy_prisma_message f c =
     (case f of
        InvalidArgument \<Rightarrow> ''Argument increment: Invalid value provided. Expected Int.''
      | RecordNotFound \<Rightarrow> ''Record to update not found.''
      | IntegerOutOfRange \<Rightarrow> ''integer out of range''
      | InvalidDate \<Rightarrow> ''Provided Date object is invalid. Expected Date.''
      | UniqueConstraintFailed \<Rightarrow> ''Unique constraint failed on the fields: (actionId)'')"

definition toy_setting :: setting where
  "toy_setting =
     \<lparr>sha256_hex = toy_digest, new_Date = toy_date, number_text = toy_number_text,
      prisma_message = toy_prisma_message, body_schema = True\<rparr>"

text \<open>
  Messages as Prisma words a validation error: they quote the arguments of the
  call, here the action id the request chose.
\<close>

definition quoting_setting :: setting where
  "quoting_setting =
     toy_setting\<lparr>prisma_message :=
       (\<lambda>f c. ''Invalid invocation: actionId: '' @ actionId (call_data c) @ '' timestamp: Invalid Date'')\<rparr>"

definition alice :: authenticated_user where
  "alice = \<lparr>auth_userId = ''alice'', auth_username = ''Alice'', auth_email = ''alice@example.org''\<rparr>"

definition empty_cache :: cache_state where
  "empty_cache =
     \<lparr>redis_up = True, scoreboard_top10 = None,
      user_score_keys = (\<lambda>k. None), rate_limit_keys = (\<lambda>k. None)\<rparr>"

definition alice_db :: database where
  "alice_db =
     \<lparr>users = [\<lparr>user_id = ''alice'', username = ''Alice''\<rparr>],
      scores = [\<lparr>userId = ''alice'', score = 0, lastUpdated = 5\<rparr>],
      actionLogs = []\<rparr>"

definition alice_system :: system where
  "alice_system = \<lparr>db = alice_db, cache = empty_cache, broadcasts = []\<rparr>"

text \<open>Scenario S1: a token for 50 points, issued at the second known instant.\<close>

definition token50 :: score_update_request where
  "token50 =
     \<lparr>actionId = ''n1'', scoreIncrement = 50, timestamp = ''2024-01-15T10:30:00.000Z'',
      actionHash = ''#n1-50-2024-01-15T10:30:00.000Z''\<rparr>"

definition post50 :: update_http_request where
  "post50 =
     \<lparr>authorization = Verified alice, request_ip = None,
      json_body =
        \<lparr>body_actionId = Some ''n1'', body_scoreIncrement = Some 50,
         body_timestamp = Some ''2024-01-15T10:30:00.000Z'',
         body_actionHash = Some ''#n1-50-2024-01-15T10:30:00.000Z'', body_score = Some 0\<rparr>\<rparr>"

text \<open>A token whose timestamp is not a date, with the digest of its own fields.\<close>

definition bad_date_token :: score_update_request where
  "bad_date_token =
     \<lparr>actionId = ''n2'', scoreIncrement = 7, timestamp = ''yesterday'',
      actionHash = ''#n2-7-yesterday''\<rparr>"

definition bad_date_body :: update_body where
  "bad_date_body =
     \<lparr>body_actionId = Some ''n2'', body_scoreIncrement = Some 7,
      body_timestamp = Some ''yesterday'', body_actionHash = Some ''#n2-7-yesterday'',
      body_score = Some 0\<rparr>"

text \<open>
  The HTTP request of a verified user that carries a given token, with the
  \<^verbatim>\<open>score\<close> property the body schema asks for.
\<close>

definition post_of :: "authenticated_user \<Rightarrow> score_update_request \<Rightarrow> update_http_request" where
  "post_of u req =
     \<lparr>authorization = Verified u, request_ip = None,
      json_body =
        \<lparr>body_actionId = Some (actionId req), body_scoreIncrement = Some (scoreIncrement req),
         body_timestamp = Some (timestamp req), body_actionHash = Some (actionHash req),
         body_score = Some 0\<rparr>\<rparr>"

text \<open>The system after scenario S1: alice has 50 points and \<open>n1\<close> is in the action log.\<close>

definition logged_system :: system where
  "logged_system =
     \<lparr>db = \<lparr>users = [\<lparr>user_id = ''alice'', username = ''Alice''\<rparr>],
            scores = [\<lparr>userId = ''alice'', score = 50, lastUpdated = 1705314601000\<rparr>],
            actionLogs = [\<lparr>log_userId = ''alice'', log_actionId = ''n1'',
               log_scoreIncrement = 50, log_actionHash = ''#n1-50-2024-01-15T10:30:00.000Z'',
               log_timestamp = 1705314600000, log_ipAddress = None\<rparr>]\<rparr>,
      cache = empty_cache, broadcasts = []\<rparr>"

text \<open>Tokens whose hash is not the digest of their fields, and one issued in 1970.\<close>

definition forged_token :: score_update_request where
  "forged_token =
     \<lparr>actionId = ''n1'', scoreIncrement = 50, timestamp = ''2024-01-15T10:30:00.000Z'',
      actionHash = ''forged''\<rparr>"

definition big_forged_token :: score_update_request where
  "big_forged_token =
     \<lparr>actionId = ''n4'', scoreIncrement = 5000, timestamp = ''2024-01-15T10:30:00.000Z'',
      actionHash = ''forged''\<rparr>"

definition big_token :: score_update_request where
  "big_token =
     \<lparr>actionId = ''n4'', scoreIncrement = 5000, timestamp = ''2024-01-15T10:30:00.000Z'',
      actionHash = ''#n4-5000-2024-01-15T10:30:00.000Z''\<rparr>"

definition stale_token :: score_update_request where
  "stale_token =
     \<lparr>actionId = ''n5'', scoreIncrement = 50, timestamp = ''1970-01-01T00:00:00.000Z'',
      actionHash = ''#n5-50-1970-01-01T00:00:00.000Z''\<rparr>"

text \<open>
  A body without \<^verbatim>\<open>actionHash\<close>, one without \<^verbatim>\<open>actionId\<close>, the first without a
  token, and a cache whose score-update counter stands at 10.
\<close>

definition no_hash_post :: update_http_request where
  "no_hash_post =
     \<lparr>authorization = Verified alice, request_ip = None,
      json_body = \<lparr>body_actionId = Some ''n3'', body_scoreIncrement = Some 5,
         body_timestamp = Some ''2024-01-15T10:30:00.000Z'', body_actionHash = None,
         body_score = Some 0\<rparr>\<rparr>"

definition no_id_post :: update_http_request where
  "no_id_post =
     \<lparr>authorization = Verified alice, request_ip = None,
      json_body = \<lparr>body_actionId = None, body_scoreIncrement = Some 5,
         body_timestamp = Some ''2024-01-15T10:30:00.000Z'', body_actionHash = Some ''h'',
         body_score = Some 0\<rparr>\<rparr>"

definition anonymous_no_hash_post :: update_http_request where
  "anonymous_no_hash_post = no_hash_post\<lparr>authorization := NoToken\<rparr>"

definition exhausted_cache :: cache_state where
  "exhausted_cache =
     \<lparr>redis_up = True, scoreboard_top10 = None, user_score_keys = (\<lambda>k. None),
      rate_limit_keys = (\<lambda>k. if k = ''rate_limit:rate_limit:score_update:anonymous''
                              then Some (10, 1705314660000) else None)\<rparr>"

text \<open>
  The cache of \<open>exhausted_cache\<close> behind an unreachable Redis, and nine requests by
  alice one millisecond apart.
\<close>

definition down_cache :: cache_state where
  "down_cache = exhausted_cache\<lparr>redis_up := False\<rparr>"

definition nine_hooks :: "(authenticated_user option \<times> int) list" where
  "nine_hooks =
     [(Some alice, 1705314601000),
      (Some alice, 1705314601001),
      (Some alice, 1705314601002),
      (Some alice, 1705314601003),
      (Some alice, 1705314601004),
      (Some alice, 1705314601005),
      (Some alice, 1705314601006),
      (Some alice, 1705314601007),
      (Some alice, 1705314601008)]"

text \<open>Ten requests by alice one millisecond apart, each of which fails in the controller.\<close>

definition ten_posts :: "(update_http_request \<times> int) list" where
  "ten_posts =
     [(no_id_post, 1705314601000),
      (no_id_post, 1705314601001),
      (no_id_post, 1705314601002),
      (no_id_post, 1705314601003),
      (no_id_post, 1705314601004),
      (no_id_post, 1705314601005),
      (no_id_post, 1705314601006),
      (no_id_post, 1705314601007),
      (no_id_post, 1705314601008),
      (no_id_post, 1705314601009)]"

text \<open>Scenario S3: bob and carol both at 100, bob's update the earlier one.\<close>

definition tie_db :: database where
  "tie_db =
     \<lparr>users = [\<lparr>user_id = ''carol'', username = ''Carol''\<rparr>, \<lparr>user_id = ''dave'', username = ''Dave''\<rparr>,
               \<lparr>user_id = ''bob'', username = ''Bob''\<rparr>],
      scores = [\<lparr>userId = ''carol'', score = 100, lastUpdated = 2000\<rparr>,
                \<lparr>userId = ''dave'', score = 40, lastUpdated = 500\<rparr>,
                \<lparr>userId = ''bob'', score = 100, lastUpdated = 1000\<rparr>],
      actionLogs = []\<rparr>"

text \<open>
  Two calls of \<^verbatim>\<open>updateScore\<close> with the token of scenario S1 that overlap: both
  look the action id up before either runs its transaction.
\<close>

definition call50 :: update_call where
  "call50 = \<lparr>call_userId = ''alice'', call_data = token50, call_ipAddress = None\<rparr>"

definition overlapped_retry :: "service_step list" where
  "overlapped_retry =
     [Check 0 call50, Check 1 call50, Transact 0 1705314601000, Transact 1 1705314601001]"

section \<open>Properties\<close>

lemmas model_defs =
  getScoreboard_def setScoreboard_def cache_getUserScore_def setUserScore_def
  invalidateScoreboard_def invalidateUserScore_def redis_get_counter_def getRateLimit_def
  incrementRateLimit_def order_key_def findMany_ordered_def username_of_def to_entry_def
  load_top_def getTopScores_def rank_count_def getTotalUsers_def getUserScore_def
  generateActionHash_def in_int32_def tx_score_update_def findUnique_action_def
  tx_actionLog_create_def transaction_def update_tx_def validate_update_def
  commit_update_def updateScore_def authenticateToken_def properties_def read_property_def
  or_default_def window_seconds_def rateLimit_decide_def rateLimit_def
  scoreUpdate_limiter_def error_message_def errorCode_def broadcastScoreboardUpdate_def
  controller_updateScore_def schema_valid_def post_update_def

lemmas sample_defs =
  toy_digest_def toy_date_def toy_number_text_def toy_prisma_message_def toy_setting_def
  alice_def empty_cache_def alice_db_def alice_system_def
  token50_def post50_def bad_date_token_def bad_date_body_def post_of_def logged_system_def
  forged_token_def big_forged_token_def big_token_def stale_token_def no_hash_post_def
  no_id_post_def anonymous_no_hash_post_def
  exhausted_cache_def down_cache_def nine_hooks_def ten_posts_def tie_db_def
  call50_def overlapped_retry_def

subsection \<open>Facts about the write path\<close>

lemma errorCode_own:
  "errorCode (error_message E c ActionAlreadyProcessed) = ''DUPLICATE_ACTION''"
  "errorCode (error_message E c InvalidActionHash) = ''INVALID_ACTION_HASH''"
  "errorCode (error_message E c ScoreIncrementOutOfRange) = ''INVALID_SCORE_INCREMENT''"
  by (simp_all add: errorCode_def error_message_def)

lemma find_append_last:
  "find P (xs @ ys) = (case find P xs of None \<Rightarrow> find P ys | Some x \<Rightarrow> Some x)"
  by (induction xs) auto

lemma update_score_row_split:
  "update_score_row uid f rs = Some (u, rs') \<Longrightarrow>
     \<exists>pre r post. rs = pre @ r # post \<and> userId r = uid \<and> list_all (\<lambda>x. userId x \<noteq> uid) pre
        \<and> u = f r \<and> rs' = pre @ f r # post"
proof (induction rs arbitrary: rs')
  case Nil
  then show ?case by simp
next
  case (Cons a rs)
  show ?case
  proof (cases "userId a = uid")
    case True
    with Cons.prems have "u = f a" "rs' = f a # rs" by auto
    with True show ?thesis by (intro exI[of _ "[]"] exI[of _ a] exI[of _ rs]) simp
  next
    case False
    with Cons.prems obtain rs2 where r2: "update_score_row uid f rs = Some (u, rs2)" and e: "rs' = a # rs2"
      by (auto split: option.splits)
    from Cons.IH[OF r2] obtain pre r post where
      "rs = pre @ r # post" "userId r = uid" "list_all (\<lambda>x. userId x \<noteq> uid) pre" "u = f r" "rs2 = pre @ f r # post"
      by blast
    with False e show ?thesis
      by (intro exI[of _ "a # pre"] exI[of _ r] exI[of _ post]) simp
  qed
qed

lemma tx_score_update_logs:
  "tx_score_update uid inc now d = Inr (row, d1) \<Longrightarrow> actionLogs d1 = actionLogs d \<and> users d1 = users d"
  by (auto simp: tx_score_update_def split: option.splits if_splits)

lemma update_tx_ok:
  "update_tx E uid req ip now d = Inr (row, d2) \<Longrightarrow>
     (\<exists>t. new_Date E (timestamp req) = Some t \<and>
        actionLogs d2 = actionLogs d @
             [\<lparr>log_userId = uid, log_actionId = actionId req,
               log_scoreIncrement = \<lfloor>scoreIncrement req\<rfloor>,
               log_actionHash = actionHash req,
               log_timestamp = t, log_ipAddress = ip\<rparr>])
     \<and> findUnique_action d (actionId req) = None
     \<and> users d2 = users d
     \<and> update_score_row uid (\<lambda>r. r\<lparr>score := score r + \<lfloor>scoreIncrement req\<rfloor>, lastUpdated := now\<rparr>) (scores d)
           = Some (row, scores d2)
     \<and> scoreIncrement req \<in> \<int> \<and> in_int32 \<lfloor>scoreIncrement req\<rfloor> \<and> in_int32 (score row)"
  by (auto simp: update_tx_def tx_score_update_def tx_actionLog_create_def findUnique_action_def
      split: sum.splits option.splits prod.splits if_splits)

lemma updateScore_duplicate:
  "findUnique_action (db s) (actionId req) = Some l \<Longrightarrow>
     updateScore E uid req ip now s = (Inl ActionAlreadyProcessed, s)"
  by (simp add: updateScore_def validate_update_def)

lemma updateScore_error_unchanged:
  "updateScore E uid req ip now s = (Inl e, s') \<Longrightarrow> s' = s"
  by (auto simp: updateScore_def commit_update_def transaction_def
      split: option.splits sum.splits prod.splits)

lemma updateScore_ok:
  "updateScore E uid req ip now s = (Inr res, s') \<Longrightarrow>
     validate_update E (db s) req = None \<and>
     (\<exists>row. update_tx E uid req ip now (db s) = Inr (row, db s') \<and>
        res = \<lparr>upd_userId = userId row, newScore = score row,
                upd_rank = rank_count (db s') (score row) (lastUpdated row)\<rparr> \<and>
        cache s' = setUserScore uid (score row) (invalidateUserScore uid (invalidateScoreboard (cache s)))) \<and>
     broadcasts s' = broadcasts s"
  by (auto simp: updateScore_def commit_update_def transaction_def
      split: option.splits sum.splits prod.splits)

lemma getTopScores_frame:
  "db (snd (getTopScores k s)) = db s \<and> broadcasts (snd (getTopScores k s)) = broadcasts s"
  by (simp add: getTopScores_def Let_def split: option.splits)

lemma controller_cases:
  assumes "controller_updateScore E user b ip' now s = (r, s')"
  shows "(status r = 400 \<and> s' = s) \<or>
         (\<exists>aid inc ts h res s1.
            body_actionId b = Some aid \<and> body_scoreIncrement b = Some inc \<and>
            body_timestamp b = Some ts \<and> body_actionHash b = Some h \<and>
            updateScore E (auth_userId user)
               \<lparr>actionId = aid, scoreIncrement = inc, timestamp = ts, actionHash = h\<rparr> ip' now s
              = (Inr res, s1) \<and>
            r = Reply 200 (UpdateSuccess res) \<and>
            s' = broadcastScoreboardUpdate (fst (getTopScores 10 s1)) (snd (getTopScores 10 s1)))"
proof (cases "body_actionId b")
  case None
  with assms show ?thesis by (auto simp: controller_updateScore_def)
next
  case a: (Some aid)
  show ?thesis
  proof (cases "body_scoreIncrement b")
    case None
    with a assms show ?thesis by (auto simp: controller_updateScore_def)
  next
    case i: (Some inc)
    show ?thesis
    proof (cases "body_timestamp b")
      case None
      with a i assms show ?thesis by (auto simp: controller_updateScore_def)
    next
      case t: (Some ts)
      show ?thesis
      proof (cases "body_actionHash b")
        case None
        with a i t assms show ?thesis by (auto simp: controller_updateScore_def)
      next
        case h: (Some h)
        show ?thesis
        proof (cases "aid = [] \<or> inc = 0 \<or> ts = [] \<or> h = []")
          case True
          with a i t h assms show ?thesis by (auto simp: controller_updateScore_def)
        next
          case False
          obtain res s1 where u: "updateScore E (auth_userId user)
               \<lparr>actionId = aid, scoreIncrement = inc, timestamp = ts, actionHash = h\<rparr> ip' now s = (res, s1)"
            by (cases "updateScore E (auth_userId user)
               \<lparr>actionId = aid, scoreIncrement = inc, timestamp = ts, actionHash = h\<rparr> ip' now s") auto
          show ?thesis
          proof (cases res)
            case (Inl e)
            with u have "s1 = s" using updateScore_error_unchanged by blast
            with Inl u a i t h False assms show ?thesis
              by (auto simp: controller_updateScore_def)
          next
            case (Inr v)
            with u a i t h False assms show ?thesis
              by (auto simp: controller_updateScore_def Let_def split: prod.splits)
          qed
        qed
      qed
    qed
  qed
qed

lemma updateScore_log_kept:
  assumes "updateScore E uid req ip' now s = (res, s')" "findUnique_action (db s) n = Some l"
  shows "findUnique_action (db s') n = Some l"
proof (cases res)
  case (Inl e)
  with assms show ?thesis using updateScore_error_unchanged by blast
next
  case (Inr v)
  with assms(1) obtain row where "update_tx E uid req ip' now (db s) = Inr (row, db s')"
    using updateScore_ok by blast
  from update_tx_ok[OF this] obtain x where "actionLogs (db s') = actionLogs (db s) @ [x]" by blast
  with assms(2) show ?thesis by (simp add: findUnique_action_def find_append_last)
qed

lemma updateScore_ok_logged:
  assumes "updateScore E uid req ip' now s = (Inr v, s')"
  shows "findUnique_action (db s) (actionId req) = None \<and> findUnique_action (db s') (actionId req) \<noteq> None"
proof -
  from assms obtain row where "update_tx E uid req ip' now (db s) = Inr (row, db s')"
    using updateScore_ok by blast
  from update_tx_ok[OF this] show ?thesis
    by (auto simp: findUnique_action_def find_append_last)
qed

lemma post_update_cases:
  assumes "post_update E rq now s = (r, s')"
  shows "(status r \<noteq> 200 \<and> db s' = db s \<and> broadcasts s' = broadcasts s) \<or>
         (\<exists>user c' aid inc ts h res s1.
            authenticateToken (authorization rq) = Inr user \<and>
            rateLimit scoreUpdate_limiter (Some user) now (cache s) = (Continue, c') \<and>
            body_actionId (json_body rq) = Some aid \<and> body_scoreIncrement (json_body rq) = Some inc \<and>
            body_timestamp (json_body rq) = Some ts \<and> body_actionHash (json_body rq) = Some h \<and>
            updateScore E (auth_userId user)
               \<lparr>actionId = aid, scoreIncrement = inc, timestamp = ts, actionHash = h\<rparr> (request_ip rq) now
               (s\<lparr>cache := c'\<rparr>) = (Inr res, s1) \<and>
            r = Reply 200 (UpdateSuccess res) \<and>
            s' = broadcastScoreboardUpdate (fst (getTopScores 10 s1)) (snd (getTopScores 10 s1)))"
proof (cases "body_schema E \<and> \<not> schema_valid (json_body rq)")
  case True
  with assms show ?thesis by (auto simp: post_update_def)
next
  case ok: False
  show ?thesis
  proof (cases "authenticateToken (authorization rq)")
    case (Inl a)
    with ok assms show ?thesis
      by (auto simp: post_update_def authenticateToken_def split: bearer.splits)
  next
    case (Inr user)
    obtain hr c' where rl: "rateLimit scoreUpdate_limiter (Some user) now (cache s) = (hr, c')"
      by (cases "rateLimit scoreUpdate_limiter (Some user) now (cache s)") auto
    show ?thesis
    proof (cases hr)
      case (Sent x)
      with rl have "x = Reply 429 (TooManyRequests (window_seconds (windowMs scoreUpdate_limiter)))"
        by (auto simp: rateLimit_def rateLimit_decide_def Let_def split: if_splits)
      with Sent rl Inr ok assms show ?thesis by (auto simp: post_update_def)
    next
      case Continue
      with rl Inr ok assms have c: "controller_updateScore E user (json_body rq) (request_ip rq) now (s\<lparr>cache := c'\<rparr>) = (r, s')"
        by (auto simp: post_update_def)
      from controller_cases[OF c] Inr rl Continue show ?thesis by auto
    qed
  qed
qed

lemma post_update_accept:
  assumes "post_update E rq now s = (r, s')" "status r = 200"
  shows "\<exists>aid. body_actionId (json_body rq) = Some aid \<and> findUnique_action (db s) aid = None
            \<and> findUnique_action (db s') aid \<noteq> None"
proof -
  from post_update_cases[OF assms(1)] assms(2) obtain user :: authenticated_user and c' aid inc ts h res s1 where
    b: "body_actionId (json_body rq) = Some aid" and
    u: "updateScore E (auth_userId user)
               \<lparr>actionId = aid, scoreIncrement = inc, timestamp = ts, actionHash = h\<rparr> (request_ip rq) now
               (s\<lparr>cache := c'\<rparr>) = (Inr res, s1)" and
    s': "s' = broadcastScoreboardUpdate (fst (getTopScores 10 s1)) (snd (getTopScores 10 s1))"
    by blast
  from updateScore_ok_logged[OF u] s' b show ?thesis
    by (simp add: broadcastScoreboardUpdate_def getTopScores_frame)
qed

lemma post_update_log_kept:
  assumes "post_update E rq now s = (r, s')" "findUnique_action (db s) n = Some l"
  shows "findUnique_action (db s') n = Some l"
  using post_update_cases[OF assms(1)]
proof
  assume "status r \<noteq> 200 \<and> db s' = db s \<and> broadcasts s' = broadcasts s"
  with assms(2) show ?thesis by simp
next
  assume "\<exists>(user :: authenticated_user) c' aid inc ts h res s1.
            authenticateToken (authorization rq) = Inr user \<and>
            rateLimit scoreUpdate_limiter (Some user) now (cache s) = (Continue, c') \<and>
            body_actionId (json_body rq) = Some aid \<and> body_scoreIncrement (json_body rq) = Some inc \<and>
            body_timestamp (json_body rq) = Some ts \<and> body_actionHash (json_body rq) = Some h \<and>
            updateScore E (auth_userId user)
               \<lparr>actionId = aid, scoreIncrement = inc, timestamp = ts, actionHash = h\<rparr> (request_ip rq) now
               (s\<lparr>cache := c'\<rparr>) = (Inr res, s1) \<and>
            r = Reply 200 (UpdateSuccess res) \<and>
            s' = broadcastScoreboardUpdate (fst (getTopScores 10 s1)) (snd (getTopScores 10 s1))"
  then obtain user :: authenticated_user and c' aid inc ts h res s1 where
    u: "updateScore E (auth_userId user)
               \<lparr>actionId = aid, scoreIncrement = inc, timestamp = ts, actionHash = h\<rparr> (request_ip rq) now
               (s\<lparr>cache := c'\<rparr>) = (Inr res, s1)" and
    s': "s' = broadcastScoreboardUpdate (fst (getTopScores 10 s1)) (snd (getTopScores 10 s1))"
    by blast
  from assms(2) have "findUnique_action (db (s\<lparr>cache := c'\<rparr>)) n = Some l" by simp
  from updateScore_log_kept[OF u this] s' show ?thesis
    by (simp add: broadcastScoreboardUpdate_def getTopScores_frame)
qed

lemma applied_Cons:
  "applied n (p # ps) (r # rs) = (if presents n (fst p) \<and> status r = 200 then 1 else 0) + applied n ps rs"
  by (simp add: applied_def)

lemma applied_bound:
  "applied n ps (fst (run_posts E ps s)) \<le> (if findUnique_action (db s) n = None then 1 else 0)"
proof (induction ps arbitrary: s)
  case Nil
  then show ?case by (simp add: applied_def)
next
  case (Cons p ps)
  obtain r s1 where p1: "post_update E (fst p) (snd p) s = (r, s1)"
    by (cases "post_update E (fst p) (snd p) s") auto
  have step: "applied n (p # ps) (fst (run_posts E (p # ps) s)) =
      (if presents n (fst p) \<and> status r = 200 then 1 else 0) + applied n ps (fst (run_posts E ps s1))"
    using p1 by (simp add: applied_Cons Let_def split: prod.splits)
  have ih: "applied n ps (fst (run_posts E ps s1)) \<le> (if findUnique_action (db s1) n = None then 1 else 0)"
    by (rule Cons.IH)
  show ?case
  proof (cases "presents n (fst p) \<and> status r = 200")
    case True
    from post_update_accept[OF p1] True have
      "findUnique_action (db s) n = None" "findUnique_action (db s1) n \<noteq> None"
      by (auto simp: presents_def)
    with ih True show ?thesis unfolding step by simp
  next
    case False
    have "(if findUnique_action (db s1) n = None then 1 else 0) \<le> (if findUnique_action (db s) n = None then 1::nat else 0)"
      using post_update_log_kept[OF p1, of n] by (cases "findUnique_action (db s) n") auto
    with ih False show ?thesis unfolding step by (auto split: if_splits)
  qed
qed

lemma run_posts_log_kept:
  "findUnique_action (db s) n = Some l \<Longrightarrow> findUnique_action (db (snd (run_posts E ps s))) n = Some l"
proof (induction ps arbitrary: s)
  case Nil
  then show ?case by simp
next
  case (Cons p ps)
  obtain r s1 where p1: "post_update E (fst p) (snd p) s = (r, s1)"
    by (cases "post_update E (fst p) (snd p) s") auto
  have "snd (run_posts E (p # ps) s) = snd (run_posts E ps s1)"
    using p1 by (simp add: Let_def split: prod.splits)
  moreover have "findUnique_action (db s1) n = Some l"
    using post_update_log_kept[OF p1 Cons.prems] .
  ultimately show ?case using Cons.IH[of s1] by simp
qed

subsection \<open>What the setting decides\<close>

text \<open>
  The code the \<^verbatim>\<open>catch\<close> block picks for an error of Prisma depends on the
  message: with messages that quote the arguments, an action id chosen by the
  client selects it.  An increment that is not an integer passes the bounds and
  is refused by Prisma; a sum beyond 32 bits is refused by the database, and the
  transaction leaves no trace.
\<close>

lemma message_decides_code:
  "errorCode (error_message toy_setting
      \<lparr>call_userId = ''alice'', call_data = bad_date_token, call_ipAddress = None\<rparr>
      (PrismaError InvalidDate)) = ''SCORE_UPDATE_FAILED''
   \<and> errorCode (error_message quoting_setting
      \<lparr>call_userId = ''alice'', call_data = bad_date_token\<lparr>actionId := ''Score increment''\<rparr>,
       call_ipAddress = None\<rparr>
      (PrismaError InvalidDate)) = ''INVALID_SCORE_INCREMENT''"
  by (simp add: errorCode_def error_message_def quoting_setting_def sample_defs)

lemma fraction_refused:
  "validate_update toy_setting alice_db
       \<lparr>actionId = ''n6'', scoreIncrement = 3 / 2, timestamp = ''t'', actionHash = ''#n6-other-t''\<rparr> = None
   \<and> tx_score_update ''alice'' (3 / 2) 1705314601000 alice_db = Inl (PrismaError InvalidArgument)"
proof -
  have "(3 / 2 :: rat) \<notin> \<int>"
  proof
    assume "(3 / 2 :: rat) \<in> \<int>"
    then have "of_int \<lfloor>3 / 2 :: rat\<rfloor> = (3 / 2 :: rat)" by (rule of_int_floor)
    moreover have "\<lfloor>3 / 2 :: rat\<rfloor> = 1" by (rule floor_unique) simp_all
    ultimately show False by simp
  qed
  then show ?thesis
    by (simp add: model_defs sample_defs)
qed

lemma out_of_range_rolls_back:
  "transaction (update_tx toy_setting ''alice'' token50 None 1705314601000)
       (alice_db\<lparr>scores := [\<lparr>userId = ''alice'', score = 2147483600, lastUpdated = 5\<rparr>]\<rparr>)
     = (Inl (PrismaError IntegerOutOfRange),
        alice_db\<lparr>scores := [\<lparr>userId = ''alice'', score = 2147483600, lastUpdated = 5\<rparr>]\<rparr>)"
  by (simp add: model_defs sample_defs)

subsection \<open>Replay of a nonce\<close>

lemma update_tx_error:
  "update_tx E uid req ip' now d = Inl e \<Longrightarrow> \<exists>f. e = PrismaError f"
  by (auto simp: update_tx_def tx_score_update_def tx_actionLog_create_def
      split: sum.splits option.splits prod.splits if_splits)

lemma commit_update_error:
  "commit_update E uid req ip' now s = (Inl e, s') \<Longrightarrow> s' = s \<and> (\<exists>f. e = PrismaError f)"
  using update_tx_error[of E uid req ip' now "db s"]
  by (auto simp: commit_update_def transaction_def split: sum.splits prod.splits)

lemma commit_update_ok:
  assumes "commit_update E uid req ip' now s = (Inr res, s')"
  shows "findUnique_action (db s) (actionId req) = None \<and> findUnique_action (db s') (actionId req) \<noteq> None
         \<and> (\<forall>n l. findUnique_action (db s) n = Some l \<longrightarrow> findUnique_action (db s') n = Some l)"
proof -
  from assms obtain row where "update_tx E uid req ip' now (db s) = Inr (row, db s')"
    by (auto simp: commit_update_def transaction_def split: sum.splits prod.splits)
  from update_tx_ok[OF this] show ?thesis
    by (auto simp: findUnique_action_def find_append_last)
qed

lemma commit_update_logged:
  assumes "findUnique_action (db s) (actionId req) \<noteq> None"
  shows "\<exists>f. commit_update E uid req ip' now s = (Inl (PrismaError f), s)"
proof -
  obtain r s' where c: "commit_update E uid req ip' now s = (r, s')"
    by (cases "commit_update E uid req ip' now s") auto
  show ?thesis
  proof (cases r)
    case (Inl e)
    with c commit_update_error[of E uid req ip' now s e s'] show ?thesis by auto
  next
    case (Inr res)
    with c commit_update_ok[of E uid req ip' now s res s'] assms show ?thesis by simp
  qed
qed

lemma commit_update_log_kept:
  assumes "commit_update E uid req ip' now s = (r, s')" "findUnique_action (db s) n = Some l"
  shows "findUnique_action (db s') n = Some l"
proof (cases r)
  case (Inl e)
  with assms commit_update_error[of E uid req ip' now s e s'] show ?thesis by simp
next
  case (Inr res)
  with assms commit_update_ok[of E uid req ip' now s res s'] show ?thesis by simp
qed

lemma applications_Cons:
  "applications n ((c, r) # done) =
     (if actionId (call_data c) = n \<and> returned r then 1 else 0) + applications n done"
  by (simp add: applications_def)

lemma run_overlapped_Check_error:
  "validate_update E (db s) (call_data c) = Some e \<Longrightarrow>
     fst (run_overlapped E (Check i c # rest) waiting s) = (c, Inl e) # fst (run_overlapped E rest waiting s)
     \<and> snd (run_overlapped E (Check i c # rest) waiting s) = snd (run_overlapped E rest waiting s)"
  by (simp split: prod.splits)

lemma run_overlapped_Transact:
  "map_of waiting i = Some c \<Longrightarrow>
   commit_update E (call_userId c) (call_data c) (call_ipAddress c) now s = (r, s1) \<Longrightarrow>
     fst (run_overlapped E (Transact i now # rest) waiting s)
       = (c, r) # fst (run_overlapped E rest (filter (\<lambda>p. fst p \<noteq> i) waiting) s1)
     \<and> snd (run_overlapped E (Transact i now # rest) waiting s)
       = snd (run_overlapped E rest (filter (\<lambda>p. fst p \<noteq> i) waiting) s1)"
  by (simp split: prod.splits)

text \<open>
  A call that runs its two parts with nothing in between is \<^verbatim>\<open>updateScore\<close>.
\<close>

lemma run_overlapped_alone:
  "run_overlapped E [Check i c, Transact i now] [] s =
     ([(c, fst (updateScore E (call_userId c) (call_data c) (call_ipAddress c) now s))],
      snd (updateScore E (call_userId c) (call_data c) (call_ipAddress c) now s))"
  by (simp add: updateScore_def split: option.splits prod.splits)

lemma overlapped_bound:
  "applications n (fst (run_overlapped E steps waiting s))
     \<le> (if findUnique_action (db s) n = None then 1 else 0)"
proof (induction steps arbitrary: waiting s)
  case Nil
  then show ?case by (simp add: applications_def)
next
  case (Cons st steps)
  show ?case
  proof (cases st)
    case (Check i c)
    show ?thesis
    proof (cases "validate_update E (db s) (call_data c)")
      case None
      with Check Cons.IH[of "(i, c) # waiting" s] show ?thesis by simp
    next
      case (Some e)
      from run_overlapped_Check_error[OF Some, of i steps waiting] Check Cons.IH[of waiting s]
      show ?thesis by (simp add: applications_Cons returned_def)
    qed
  next
    case (Transact i now)
    show ?thesis
    proof (cases "map_of waiting i")
      case None
      with Transact Cons.IH[of waiting s] show ?thesis by simp
    next
      case (Some c)
      obtain r s1 where cu: "commit_update E (call_userId c) (call_data c) (call_ipAddress c) now s = (r, s1)"
        by (cases "commit_update E (call_userId c) (call_data c) (call_ipAddress c) now s") auto
      have step: "applications n (fst (run_overlapped E (st # steps) waiting s)) =
          (if actionId (call_data c) = n \<and> returned r then 1 else 0)
          + applications n (fst (run_overlapped E steps (filter (\<lambda>p. fst p \<noteq> i) waiting) s1))"
        using run_overlapped_Transact[OF Some cu, of steps] Transact by (simp add: applications_Cons)
      have ih: "applications n (fst (run_overlapped E steps (filter (\<lambda>p. fst p \<noteq> i) waiting) s1))
          \<le> (if findUnique_action (db s1) n = None then 1 else 0)"
        by (rule Cons.IH)
      show ?thesis
      proof (cases "actionId (call_data c) = n \<and> returned r")
        case True
        then obtain res where "r = Inr res" by (cases r) (auto simp: returned_def)
        with cu commit_update_ok[of E "call_userId c" "call_data c" "call_ipAddress c" now s res s1] True
        have "findUnique_action (db s) n = None" "findUnique_action (db s1) n \<noteq> None" by auto
        with ih True show ?thesis unfolding step by simp
      next
        case False
        have "(if findUnique_action (db s1) n = None then 1 else 0)
            \<le> (if findUnique_action (db s) n = None then 1::nat else 0)"
          using commit_update_log_kept[OF cu, of n] by (cases "findUnique_action (db s) n") auto
        with ih False show ?thesis unfolding step by (auto split: if_splits)
      qed
    qed
  qed
qed

lemma overlapped_log_kept:
  "findUnique_action (db s) n = Some l \<Longrightarrow>
     findUnique_action (db (snd (run_overlapped E steps waiting s))) n = Some l"
proof (induction steps arbitrary: waiting s)
  case Nil
  then show ?case by simp
next
  case (Cons st steps)
  show ?case
  proof (cases st)
    case (Check i c)
    show ?thesis
    proof (cases "validate_update E (db s) (call_data c)")
      case None
      with Check Cons.IH[OF Cons.prems, of "(i, c) # waiting"] show ?thesis by simp
    next
      case (Some e)
      from run_overlapped_Check_error[OF Some, of i steps waiting] Check Cons.IH[OF Cons.prems, of waiting]
      show ?thesis by simp
    qed
  next
    case (Transact i now)
    show ?thesis
    proof (cases "map_of waiting i")
      case None
      with Transact Cons.IH[OF Cons.prems, of waiting] show ?thesis by simp
    next
      case (Some c)
      obtain r s1 where cu: "commit_update E (call_userId c) (call_data c) (call_ipAddress c) now s = (r, s1)"
        by (cases "commit_update E (call_userId c) (call_data c) (call_ipAddress c) now s") auto
      from commit_update_log_kept[OF cu Cons.prems] have "findUnique_action (db s1) n = Some l" .
      from Cons.IH[OF this, of "filter (\<lambda>p. fst p \<noteq> i) waiting"]
           run_overlapped_Transact[OF Some cu, of steps] Transact
      show ?thesis by simp
    qed
  qed
qed

text \<open>
  Against claim C1 as stated: two requests with the token of scenario S1 whose
  calls of \<^verbatim>\<open>updateScore\<close> overlap.  Both pass the lookup of the action id.  The
  first transaction commits; the second is refused by the unique index, and the
  controller answers 400 with the code \<^verbatim>\<open>SCORE_UPDATE_FAILED\<close>: neither the result
  of the first nor \<^verbatim>\<open>DUPLICATE_ACTION\<close>.  The score is 50, not 100.
\<close>

theorem overlapped_retry_counterexample:
  "fst (run_overlapped toy_setting overlapped_retry [] alice_system)
     = [(call50, Inr \<lparr>upd_userId = ''alice'', newScore = 50, upd_rank = 1\<rparr>),
        (call50, Inl (PrismaError UniqueConstraintFailed))]
   \<and> errorCode (error_message toy_setting call50 (PrismaError UniqueConstraintFailed))
       = ''SCORE_UPDATE_FAILED''
   \<and> scores (db (snd (run_overlapped toy_setting overlapped_retry [] alice_system)))
       = [\<lparr>userId = ''alice'', score = 50, lastUpdated = 1705314601000\<rparr>]"
  by (simp add: model_defs sample_defs digits.simps Let_def)

text \<open>
  Claim C1, amended.  The increment of an action id \<open>n\<close> is applied at most once,
  and not at all when \<open>n\<close> is already in the action log, where it then stays: this
  holds of the calls of \<^verbatim>\<open>updateScore\<close> under every schedule in which they overlap,
  and of the replies of the route to requests handled one after another.  Once
  an action id is in the log, a call that looks it up throws
  "Action ID has already been processed", which the controller answers with
  \<^verbatim>\<open>DUPLICATE_ACTION\<close>, and a call that had looked it up before and runs its
  transaction now is refused inside the transaction; either way the whole state
  is as it was.  An accepted update puts its action id into the log, so the same
  payload sent again afterwards, by anyone and at any time, is refused as a
  duplicate.
\<close>

theorem nonce_applied_at_most_once:
  "applications n (fst (run_overlapped E steps [] s)) \<le> 1
   \<and> (findUnique_action (db s) n \<noteq> None \<longrightarrow>
        applications n (fst (run_overlapped E steps [] s)) = 0
        \<and> findUnique_action (db (snd (run_overlapped E steps [] s))) n \<noteq> None)
   \<and> applied n ps (fst (run_posts E ps s)) \<le> 1
   \<and> (findUnique_action (db s) n \<noteq> None \<longrightarrow>
        applied n ps (fst (run_posts E ps s)) = 0
        \<and> findUnique_action (db (snd (run_posts E ps s))) n \<noteq> None)
   \<and> (findUnique_action (db s) (actionId req) \<noteq> None \<longrightarrow>
        updateScore E uid req ip' now s = (Inl ActionAlreadyProcessed, s)
        \<and> errorCode (error_message E c ActionAlreadyProcessed) = ''DUPLICATE_ACTION''
        \<and> (\<exists>f. commit_update E uid req ip' now s = (Inl (PrismaError f), s)))
   \<and> (\<forall>res s'. updateScore E uid req ip' now s = (Inr res, s') \<longrightarrow>
        findUnique_action (db s') (actionId req) \<noteq> None
        \<and> updateScore E uid2 req ip2 now2 s' = (Inl ActionAlreadyProcessed, s'))"
proof (intro conjI impI allI)
  show "applications n (fst (run_overlapped E steps [] s)) \<le> 1"
    using overlapped_bound[of n E steps "[]" s] by (simp split: if_splits)
next
  assume "findUnique_action (db s) n \<noteq> None"
  then show "applications n (fst (run_overlapped E steps [] s)) = 0"
    using overlapped_bound[of n E steps "[]" s] by auto
next
  assume "findUnique_action (db s) n \<noteq> None"
  then show "findUnique_action (db (snd (run_overlapped E steps [] s))) n \<noteq> None"
    using overlapped_log_kept[of s n _ E steps "[]"] by auto
next
  show "applied n ps (fst (run_posts E ps s)) \<le> 1"
    using applied_bound[of n ps E s] by (simp split: if_splits)
next
  assume "findUnique_action (db s) n \<noteq> None"
  then show "applied n ps (fst (run_posts E ps s)) = 0"
    using applied_bound[of n ps E s] by auto
next
  assume "findUnique_action (db s) n \<noteq> None"
  then show "findUnique_action (db (snd (run_posts E ps s))) n \<noteq> None"
    using run_posts_log_kept[of s n _ E ps] by auto
next
  assume "findUnique_action (db s) (actionId req) \<noteq> None"
  then show "updateScore E uid req ip' now s = (Inl ActionAlreadyProcessed, s)"
    using updateScore_duplicate by auto
next
  show "errorCode (error_message E c ActionAlreadyProcessed) = ''DUPLICATE_ACTION''"
    by (rule errorCode_own)
next
  assume "findUnique_action (db s) (actionId req) \<noteq> None"
  then show "\<exists>f. commit_update E uid req ip' now s = (Inl (PrismaError f), s)"
    by (rule commit_update_logged)
next
  fix res s'
  assume u: "updateScore E uid req ip' now s = (Inr res, s')"
  from updateScore_ok_logged[OF u]
  show "findUnique_action (db s') (actionId req) \<noteq> None" by simp
  then show "updateScore E uid2 req ip2 now2 s' = (Inl ActionAlreadyProcessed, s')"
    using updateScore_duplicate by auto
qed

lemma post50_db:
  "db (snd (post_update toy_setting post50 1705314601000 alice_system))
     = \<lparr>users = [\<lparr>user_id = ''alice'', username = ''Alice''\<rparr>],
      scores = [\<lparr>userId = ''alice'', score = 50, lastUpdated = 1705314601000\<rparr>],
      actionLogs = [\<lparr>log_userId = ''alice'', log_actionId = ''n1'',
          log_scoreIncrement = 50, log_actionHash = ''#n1-50-2024-01-15T10:30:00.000Z'',
          log_timestamp = 1705314600000, log_ipAddress = None\<rparr>]\<rparr>"
  by (simp add: model_defs sample_defs digits.simps Let_def)

text \<open>
  Scenario S2 for C1: the same body posted twice to a fresh account.  The first
  reply is 200 with score 50, the second is the duplicate error, and the score
  stays 50.  When the two calls overlap instead, one of them returns; a
  transaction for \<open>n1\<close> started after \<open>n1\<close> is logged changes nothing.
\<close>

theorem nonce_applied_at_most_once_witness:
  "applied ''n1'' [(post50, 1705314601000), (post50, 1705314602000)]
      (fst (run_posts toy_setting [(post50, 1705314601000), (post50, 1705314602000)] alice_system)) \<le> 1
   \<and> fst (run_posts toy_setting [(post50, 1705314601000), (post50, 1705314602000)] alice_system)
      = [Reply 200 (UpdateSuccess \<lparr>upd_userId = ''alice'', newScore = 50, upd_rank = 1\<rparr>),
         Reply 400 (ErrorBody ''DUPLICATE_ACTION'')]
   \<and> scores (db (snd (run_posts toy_setting [(post50, 1705314601000), (post50, 1705314602000)] alice_system)))
      = [\<lparr>userId = ''alice'', score = 50, lastUpdated = 1705314601000\<rparr>]
   \<and> applications ''n1'' (fst (run_overlapped toy_setting overlapped_retry [] alice_system)) = 1
   \<and> applications ''n1'' (fst (run_overlapped toy_setting overlapped_retry [] logged_system)) = 0
   \<and> applied ''n1'' [(post50, 1705314602000)]
        (fst (run_posts toy_setting [(post50, 1705314602000)] logged_system)) = 0
   \<and> updateScore toy_setting ''bob'' token50 None 1705314609000
        (snd (updateScore toy_setting ''alice'' token50 None 1705314601000 alice_system))
      = (Inl ActionAlreadyProcessed,
         snd (updateScore toy_setting ''alice'' token50 None 1705314601000 alice_system))
   \<and> findUnique_action (db (snd (post_update toy_setting post50 1705314601000 alice_system))) ''n1'' \<noteq> None
   \<and> fst (updateScore toy_setting ''alice'' token50 None 1705314602000
            (snd (post_update toy_setting post50 1705314601000 alice_system)))
      = Inl ActionAlreadyProcessed
   \<and> commit_update toy_setting ''alice'' token50 None 1705314602000 logged_system
      = (Inl (PrismaError UniqueConstraintFailed), logged_system)"
proof -
  have "applied ''n1'' [(post50, 1705314601000), (post50, 1705314602000)]
      (fst (run_posts toy_setting [(post50, 1705314601000), (post50, 1705314602000)] alice_system)) \<le> 1"
    using nonce_applied_at_most_once by blast
  moreover have "fst (run_posts toy_setting [(post50, 1705314601000), (post50, 1705314602000)] alice_system)
      = [Reply 200 (UpdateSuccess \<lparr>upd_userId = ''alice'', newScore = 50, upd_rank = 1\<rparr>),
         Reply 400 (ErrorBody ''DUPLICATE_ACTION'')]"
    by (simp add: model_defs sample_defs digits.simps Let_def)
  moreover have "scores (db (snd (run_posts toy_setting [(post50, 1705314601000), (post50, 1705314602000)] alice_system)))
      = [\<lparr>userId = ''alice'', score = 50, lastUpdated = 1705314601000\<rparr>]"
    by (simp add: model_defs sample_defs digits.simps Let_def)
  moreover have "applications ''n1'' (fst (run_overlapped toy_setting overlapped_retry [] alice_system)) = 1"
    by (simp add: model_defs sample_defs digits.simps Let_def applications_def returned_def)
  moreover have "applications ''n1'' (fst (run_overlapped toy_setting overlapped_retry [] logged_system)) = 0"
    "applied ''n1'' [(post50, 1705314602000)]
        (fst (run_posts toy_setting [(post50, 1705314602000)] logged_system)) = 0"
  proof -
    have l: "findUnique_action (db logged_system) ''n1'' \<noteq> None"
      by (simp add: logged_system_def findUnique_action_def)
    with nonce_applied_at_most_once[where n = "''n1''" and E = toy_setting and steps = overlapped_retry
        and s = logged_system]
    show "applications ''n1'' (fst (run_overlapped toy_setting overlapped_retry [] logged_system)) = 0"
      by blast
    from l nonce_applied_at_most_once[where n = "''n1''" and E = toy_setting
        and ps = "[(post50, 1705314602000)]" and s = logged_system]
    show "applied ''n1'' [(post50, 1705314602000)]
        (fst (run_posts toy_setting [(post50, 1705314602000)] logged_system)) = 0"
      by blast
  qed
  moreover have "updateScore toy_setting ''bob'' token50 None 1705314609000
        (snd (updateScore toy_setting ''alice'' token50 None 1705314601000 alice_system))
      = (Inl ActionAlreadyProcessed,
         snd (updateScore toy_setting ''alice'' token50 None 1705314601000 alice_system))"
  proof -
    have "fst (updateScore toy_setting ''alice'' token50 None 1705314601000 alice_system)
        = Inr \<lparr>upd_userId = ''alice'', newScore = 50, upd_rank = 1\<rparr>"
      by (simp add: model_defs sample_defs digits.simps)
    then have "updateScore toy_setting ''alice'' token50 None 1705314601000 alice_system
        = (Inr \<lparr>upd_userId = ''alice'', newScore = 50, upd_rank = 1\<rparr>,
           snd (updateScore toy_setting ''alice'' token50 None 1705314601000 alice_system))"
      by (metis prod.collapse)
    with nonce_applied_at_most_once[where req = token50 and E = toy_setting
        and uid = "''alice''" and ip' = None and now = 1705314601000 and s = alice_system
        and ?uid2.0 = "''bob''" and ?ip2.0 = None and ?now2.0 = 1705314609000]
    show ?thesis by blast
  qed
  moreover have logged:
    "findUnique_action (db (snd (post_update toy_setting post50 1705314601000 alice_system))) ''n1'' \<noteq> None"
    by (simp add: post50_db findUnique_action_def)
  moreover have "fst (updateScore toy_setting ''alice'' token50 None 1705314602000
            (snd (post_update toy_setting post50 1705314601000 alice_system)))
      = Inl ActionAlreadyProcessed"
  proof -
    have "actionId token50 = ''n1''" by (simp add: token50_def)
    with logged nonce_applied_at_most_once[where req = token50 and E = toy_setting
        and uid = "''alice''" and ip' = None and now = 1705314602000
        and s = "snd (post_update toy_setting post50 1705314601000 alice_system)"]
    show ?thesis by simp
  qed
  moreover have "commit_update toy_setting ''alice'' token50 None 1705314602000 logged_system
      = (Inl (PrismaError UniqueConstraintFailed), logged_system)"
    by (simp add: model_defs sample_defs logged_system_def)
  ultimately show ?thesis by blast
qed

subsection \<open>The write transaction\<close>

text \<open>
  Claim C8.  The transaction either fails and leaves the database as it was, or
  returns the updated score row together with a database in which that row is
  updated and the action-log row is appended.  A transaction started on a
  database that already holds the action id fails.  When \<^verbatim>\<open>updateScore\<close> throws,
  no part of the state has changed; every reply of the controller other than 200
  leaves database, cache and broadcast list untouched, and a 200 reply comes with
  the committed transaction and exactly one broadcast.
\<close>

theorem update_all_or_nothing:
  "(case transaction (update_tx E uid req ip' now) d of
      (Inl e, d') \<Rightarrow> d' = d
    | (Inr row, d') \<Rightarrow>
        update_score_row uid (\<lambda>r. r\<lparr>score := score r + \<lfloor>scoreIncrement req\<rfloor>, lastUpdated := now\<rparr>) (scores d)
          = Some (row, scores d')
        \<and> (\<exists>t. new_Date E (timestamp req) = Some t \<and>
             actionLogs d' = actionLogs d @
               [\<lparr>log_userId = uid, log_actionId = actionId req,
                 log_scoreIncrement = \<lfloor>scoreIncrement req\<rfloor>, log_actionHash = actionHash req,
                 log_timestamp = t, log_ipAddress = ip'\<rparr>]))
   \<and> (findUnique_action d (actionId req) \<noteq> None \<longrightarrow>
        (\<exists>e. transaction (update_tx E uid req ip' now) d = (Inl e, d)))
   \<and> (\<forall>e s1. updateScore E uid req ip' now s = (Inl e, s1) \<longrightarrow> s1 = s)
   \<and> (\<forall>r s'. controller_updateScore E user b ip' now s = (r, s') \<longrightarrow>
        (status r = 400 \<and> s' = s) \<or>
        (status r = 200
          \<and> (\<exists>aid inc ts h row.
                body_actionId b = Some aid \<and> body_scoreIncrement b = Some inc \<and>
                      body_timestamp b = Some ts \<and> body_actionHash b = Some h \<and>
                transaction (update_tx E (auth_userId user)
                    \<lparr>actionId = aid, scoreIncrement = inc, timestamp = ts, actionHash = h\<rparr> ip' now) (db s)
                  = (Inr row, db s'))
          \<and> (\<exists>sb. broadcasts s' = broadcasts s @ [sb])))"
proof (intro conjI impI allI)
  show "case transaction (update_tx E uid req ip' now) d of
      (Inl e, d') \<Rightarrow> d' = d
    | (Inr row, d') \<Rightarrow>
        update_score_row uid (\<lambda>r. r\<lparr>score := score r + \<lfloor>scoreIncrement req\<rfloor>, lastUpdated := now\<rparr>) (scores d)
          = Some (row, scores d')
        \<and> (\<exists>t. new_Date E (timestamp req) = Some t \<and>
             actionLogs d' = actionLogs d @
               [\<lparr>log_userId = uid, log_actionId = actionId req,
                 log_scoreIncrement = \<lfloor>scoreIncrement req\<rfloor>, log_actionHash = actionHash req,
                 log_timestamp = t, log_ipAddress = ip'\<rparr>])"
  proof (cases "update_tx E uid req ip' now d")
    case (Inl e)
    then show ?thesis by (simp add: transaction_def)
  next
    case (Inr p)
    obtain row d2 where p: "p = (row, d2)" by (cases p)
    from update_tx_ok[OF Inr[unfolded p]] Inr p show ?thesis
      by (simp add: transaction_def)
  qed
next
  assume dup: "findUnique_action d (actionId req) \<noteq> None"
  show "\<exists>e. transaction (update_tx E uid req ip' now) d = (Inl e, d)"
  proof (cases "update_tx E uid req ip' now d")
    case (Inl e)
    then show ?thesis by (simp add: transaction_def)
  next
    case (Inr p)
    obtain row d2 where p: "p = (row, d2)" by (cases p)
    from update_tx_ok[OF Inr[unfolded p]] dup show ?thesis by simp
  qed
next
  fix e s1
  assume "updateScore E uid req ip' now s = (Inl e, s1)"
  then show "s1 = s" by (rule updateScore_error_unchanged)
next
  fix r s'
  assume c: "controller_updateScore E user b ip' now s = (r, s')"
  from controller_cases[OF c]
  show "(status r = 400 \<and> s' = s) \<or>
        (status r = 200
          \<and> (\<exists>aid inc ts h row.
                body_actionId b = Some aid \<and> body_scoreIncrement b = Some inc \<and>
                      body_timestamp b = Some ts \<and> body_actionHash b = Some h \<and>
                transaction (update_tx E (auth_userId user)
                    \<lparr>actionId = aid, scoreIncrement = inc, timestamp = ts, actionHash = h\<rparr> ip' now) (db s)
                  = (Inr row, db s'))
          \<and> (\<exists>sb. broadcasts s' = broadcasts s @ [sb]))"
  proof
    assume "status r = 400 \<and> s' = s"
    then show ?thesis by simp
  next
    assume "\<exists>aid inc ts h res s1.
            body_actionId b = Some aid \<and> body_scoreIncrement b = Some inc \<and>
                  body_timestamp b = Some ts \<and> body_actionHash b = Some h \<and>
            updateScore E (auth_userId user)
               \<lparr>actionId = aid, scoreIncrement = inc, timestamp = ts, actionHash = h\<rparr> ip' now s
              = (Inr res, s1) \<and>
            r = Reply 200 (UpdateSuccess res) \<and>
            s' = broadcastScoreboardUpdate (fst (getTopScores 10 s1)) (snd (getTopScores 10 s1))"
    then obtain aid inc ts h res s1 where
      b: "body_actionId b = Some aid \<and> body_scoreIncrement b = Some inc \<and>
                  body_timestamp b = Some ts \<and> body_actionHash b = Some h" and
      u: "updateScore E (auth_userId user)
               \<lparr>actionId = aid, scoreIncrement = inc, timestamp = ts, actionHash = h\<rparr> ip' now s
              = (Inr res, s1)" and
      r: "r = Reply 200 (UpdateSuccess res)" and
      s': "s' = broadcastScoreboardUpdate (fst (getTopScores 10 s1)) (snd (getTopScores 10 s1))"
      by blast
    from updateScore_ok[OF u] obtain row where
      tx: "update_tx E (auth_userId user)
             \<lparr>actionId = aid, scoreIncrement = inc, timestamp = ts, actionHash = h\<rparr> ip' now (db s)
           = Inr (row, db s1)" and
      bc: "broadcasts s1 = broadcasts s" by blast
    have "broadcasts s' = broadcasts s @ [fst (getTopScores 10 s1)]"
      using s' bc by (simp add: broadcastScoreboardUpdate_def getTopScores_frame)
    moreover have "db s' = db s1"
      using s' by (simp add: broadcastScoreboardUpdate_def getTopScores_frame)
    ultimately show ?thesis using tx r b by (auto simp: transaction_def)
  qed
qed

text \<open>
  A rollback for C8: the token's timestamp is not a date, so \<^verbatim>\<open>score.update\<close>
  succeeds inside the transaction and \<^verbatim>\<open>actionLog.create\<close> throws.  The score is
  back at its old value and nothing was invalidated or broadcast.
\<close>

theorem update_all_or_nothing_witness:
  "tx_score_update ''alice'' 7 1705314601000 alice_db
     = Inr (\<lparr>userId = ''alice'', score = 7, lastUpdated = 1705314601000\<rparr>,
            alice_db\<lparr>scores := [\<lparr>userId = ''alice'', score = 7, lastUpdated = 1705314601000\<rparr>]\<rparr>)
   \<and> transaction (update_tx toy_setting ''alice'' bad_date_token None 1705314601000) alice_db
     = (Inl (PrismaError InvalidDate), alice_db)
   \<and> fst (controller_updateScore toy_setting alice bad_date_body None 1705314601000 alice_system)
     = Reply 400 (ErrorBody ''SCORE_UPDATE_FAILED'')
   \<and> snd (controller_updateScore toy_setting alice bad_date_body None 1705314601000 alice_system)
     = alice_system"
proof -
  have 1: "tx_score_update ''alice'' 7 1705314601000 alice_db
     = Inr (\<lparr>userId = ''alice'', score = 7, lastUpdated = 1705314601000\<rparr>,
            alice_db\<lparr>scores := [\<lparr>userId = ''alice'', score = 7, lastUpdated = 1705314601000\<rparr>]\<rparr>)"
    by (simp add: tx_score_update_def in_int32_def alice_db_def)
  have 2: "transaction (update_tx toy_setting ''alice'' bad_date_token None 1705314601000) alice_db
     = (Inl (PrismaError InvalidDate), alice_db)"
    by (simp add: model_defs sample_defs bad_date_token_def)
  have 3: "fst (controller_updateScore toy_setting alice bad_date_body None 1705314601000 alice_system)
     = Reply 400 (ErrorBody ''SCORE_UPDATE_FAILED'')"
    by (simp add: model_defs sample_defs bad_date_body_def digits.simps)
  obtain r s' where c: "controller_updateScore toy_setting alice bad_date_body None 1705314601000 alice_system = (r, s')"
    by (cases "controller_updateScore toy_setting alice bad_date_body None 1705314601000 alice_system") auto
  with 3 have "status r = 400" by simp
  with c update_all_or_nothing[where E = toy_setting and s = alice_system and user = alice
      and b = bad_date_body and ip' = None and now = 1705314601000]
  have "s' = alice_system" by auto
  with c 1 2 3 show ?thesis by simp
qed

subsection \<open>The action hash\<close>

text \<open>
  Against claim C2 as stated: under the sample digest, \<^verbatim>\<open>updateScore\<close> accepts a
  token whose hash is not the specification's MAC under a server secret, and a
  token with a wrong hash whose action id is already logged is refused as a
  duplicate, not as an invalid hash.
\<close>

theorem unkeyed_hash_counterexample:
  "fst (updateScore toy_setting ''alice'' token50 None 1705314601000 alice_system)
       = Inr \<lparr>upd_userId = ''alice'', newScore = 50, upd_rank = 1\<rparr>
   \<and> actionHash token50 \<noteq> spec_mac toy_setting ''server-secret'' token50
   \<and> actionHash forged_token \<noteq> spec_mac toy_setting ''server-secret'' forged_token
   \<and> fst (updateScore toy_setting ''alice'' forged_token None 1705314602000 logged_system)
       = Inl ActionAlreadyProcessed"
  by (simp add: model_defs sample_defs spec_mac_def forged_token_def logged_system_def digits.simps)

text \<open>
  Claim C2, amended.  \<^verbatim>\<open>updateScore\<close> accepts a token only if its hash is the
  digest of \<^verbatim>\<open>actionId-scoreIncrement-timestamp\<close>, with no secret in it.  When the
  hash differs, the call throws and the state is unchanged: the error is
  "Invalid action hash" when the action id is not in the action log, and
  "Action ID has already been processed" when it is.
\<close>

theorem hash_gate:
  "(\<forall>res s'. updateScore E uid req ip' now s = (Inr res, s') \<longrightarrow>
       actionHash req = sha256_hex E (actionId req @ ''-'' @ number_text E (scoreIncrement req) @ ''-'' @ timestamp req))
   \<and> (actionHash req \<noteq> sha256_hex E (actionId req @ ''-'' @ number_text E (scoreIncrement req) @ ''-'' @ timestamp req) \<longrightarrow>
       updateScore E uid req ip' now s =
         (Inl (if findUnique_action (db s) (actionId req) = None
               then InvalidActionHash else ActionAlreadyProcessed), s))"
  by (auto simp: updateScore_def validate_update_def generateActionHash_def split: option.splits if_splits)

text \<open>
  C2 on sample tokens: a forged hash on a fresh and on a logged action id, and the
  digest of the accepted token.
\<close>

theorem hash_gate_witness:
  "actionHash forged_token \<noteq> sha256_hex toy_setting (actionId forged_token @ ''-'' @ number_text toy_setting (scoreIncrement forged_token) @ ''-'' @ timestamp forged_token)
   \<and> updateScore toy_setting ''alice'' forged_token None 1705314601000 alice_system
       = (Inl InvalidActionHash, alice_system)
   \<and> updateScore toy_setting ''alice'' forged_token None 1705314602000 logged_system
       = (Inl ActionAlreadyProcessed, logged_system)
   \<and> actionHash token50 = sha256_hex toy_setting (actionId token50 @ ''-'' @ number_text toy_setting (scoreIncrement token50) @ ''-'' @ timestamp token50)"
proof -
  have ne: "actionHash forged_token \<noteq> sha256_hex toy_setting (actionId forged_token @ ''-'' @ number_text toy_setting (scoreIncrement forged_token) @ ''-'' @ timestamp forged_token)"
    by (simp add: forged_token_def toy_setting_def toy_digest_def)
  have f1: "findUnique_action (db alice_system) (actionId forged_token) = None"
    by (simp add: sample_defs forged_token_def findUnique_action_def)
  have f2: "findUnique_action (db logged_system) (actionId forged_token) \<noteq> None"
    by (simp add: logged_system_def forged_token_def findUnique_action_def)
  have ok: "\<exists>res s'. updateScore toy_setting ''alice'' token50 None 1705314601000 alice_system = (Inr res, s')"
    by (simp add: model_defs sample_defs digits.simps)
  from ne f1 hash_gate[where E = toy_setting and req = forged_token and s = alice_system]
  have a: "updateScore toy_setting ''alice'' forged_token None 1705314601000 alice_system
       = (Inl InvalidActionHash, alice_system)" by simp
  from ne f2 hash_gate[where E = toy_setting and req = forged_token and s = logged_system]
  have b: "updateScore toy_setting ''alice'' forged_token None 1705314602000 logged_system
       = (Inl ActionAlreadyProcessed, logged_system)" by simp
  from ok hash_gate[where E = toy_setting and req = token50 and s = alice_system 
      and uid = "''alice''" and ip' = None and now = 1705314601000]
  have c: "actionHash token50 = sha256_hex toy_setting (actionId token50 @ ''-'' @ number_text toy_setting (scoreIncrement token50) @ ''-'' @ timestamp token50)"
    by blast
  from ne a b c show ?thesis by blast
qed

subsection \<open>The order of the checks\<close>

lemma scoreUpdate_key:
  "keyGenerator scoreUpdate_limiter (Some u) = ''rate_limit:score_update:anonymous''"
  by (simp add: scoreUpdate_limiter_def read_property_def properties_def or_default_def)

lemma post_update_schema:
  "body_schema E \<Longrightarrow> \<not> schema_valid (json_body rq) \<Longrightarrow>
     post_update E rq now s = (Reply 500 (ErrorBody ''INTERNAL_SERVER_ERROR''), s)"
  by (simp add: post_update_def)

lemma post_update_hooks:
  "body_schema E \<longrightarrow> schema_valid (json_body rq) \<Longrightarrow>
     post_update E rq now s =
       (case authenticateToken (authorization rq) of
          Inl r \<Rightarrow> (r, s)
        | Inr user \<Rightarrow>
            (case rateLimit scoreUpdate_limiter (Some user) now (cache s) of
               (Sent r, c') \<Rightarrow> (r, s\<lparr>cache := c'\<rparr>)
             | (Continue, c') \<Rightarrow>
                 controller_updateScore E user (json_body rq) (request_ip rq) now (s\<lparr>cache := c'\<rparr>)))"
  by (auto simp: post_update_def)

lemma controller_missing:
  "missing_fields b \<Longrightarrow> controller_updateScore E user b ip' now s = (Reply 400 (ErrorBody ''MISSING_FIELDS''), s)"
  by (auto simp: missing_fields_def controller_updateScore_def split: option.splits)

lemma controller_present:
  "\<not> missing_fields b \<Longrightarrow>
    controller_updateScore E user b ip' now s =
      (case updateScore E (auth_userId user) (as_request b) ip' now s of
               (Inl e, s') \<Rightarrow>
                 (Reply 400 (ErrorBody (errorCode (error_message E
                    \<lparr>call_userId = auth_userId user, call_data = as_request b, call_ipAddress = ip'\<rparr> e))), s')
             | (Inr result, s') \<Rightarrow>
                 (let (updatedScoreboard, s'') = getTopScores 10 s'
                  in (Reply 200 (UpdateSuccess result),
                      broadcastScoreboardUpdate updatedScoreboard s'')))"
proof -
  assume m: "\<not> missing_fields b"
  then obtain aid inc ts h where f: "body_actionId b = Some aid" "body_scoreIncrement b = Some inc"
      "body_timestamp b = Some ts" "body_actionHash b = Some h"
    by (auto simp: missing_fields_def)
  with m have ne: "aid \<noteq> []" "inc \<noteq> 0" "ts \<noteq> []" "h \<noteq> []"
    by (auto simp: missing_fields_def)
  have r: "as_request b = \<lparr>actionId = aid, scoreIncrement = inc, timestamp = ts, actionHash = h\<rparr>"
    using f by (simp add: as_request_def)
  show ?thesis unfolding r using f ne by (simp add: controller_updateScore_def)
qed

text \<open>
  Against claim C7 as stated: a wrong hash on a logged action id gets the
  duplicate error; an increment of 5000 with a wrong hash gets the hash error; a
  body without \<^verbatim>\<open>actionId\<close> sent while the counter stands at the limit gets 429;
  and where the route has a body schema, a body without \<^verbatim>\<open>actionHash\<close> sent
  without a token gets 500 from the schema, before the token is looked at.
\<close>

theorem check_order_counterexample:
  "fst (updateScore toy_setting ''alice'' forged_token None 1705314602000 logged_system)
       = Inl ActionAlreadyProcessed
   \<and> actionHash forged_token \<noteq> generateActionHash toy_setting (actionId forged_token) (scoreIncrement forged_token) (timestamp forged_token)
   \<and> fst (updateScore toy_setting ''alice'' big_forged_token None 1705314602000 alice_system)
       = Inl InvalidActionHash
   \<and> scoreIncrement big_forged_token > 1000
   \<and> fst (post_update toy_setting no_id_post 1705314602000 (alice_system\<lparr>cache := exhausted_cache\<rparr>))
       = Reply 429 (TooManyRequests 60)
   \<and> body_actionId (json_body no_id_post) = None
   \<and> fst (post_update toy_setting anonymous_no_hash_post 1705314602000 alice_system)
       = Reply 500 (ErrorBody ''INTERNAL_SERVER_ERROR'')
   \<and> authorization anonymous_no_hash_post = NoToken"
  by (simp add: model_defs sample_defs forged_token_def logged_system_def big_forged_token_def
       exhausted_cache_def no_hash_post_def digits.simps)

text \<open>
  Claim C7, amended.  The route checks, in this order and stopping at the first
  failure: the body against the schema of the route, where it has one (500
  \<^verbatim>\<open>INTERNAL_SERVER_ERROR\<close>), the bearer token (401), the rate limit (429), the
  presence of the four fields (\<^verbatim>\<open>MISSING_FIELDS\<close>), the novelty of the action id
  (\<^verbatim>\<open>DUPLICATE_ACTION\<close>), the hash (\<^verbatim>\<open>INVALID_ACTION_HASH\<close>) and the bounds of the
  increment (\<^verbatim>\<open>INVALID_SCORE_INCREMENT\<close>).  The reply to a request that fails a
  check does not depend on any later check, and the database is unchanged.  The
  rate limit fails when the counter of the request's key, as the limiter reads
  it, is at 10 or more.
\<close>

theorem checks_in_code_order:
  "(body_schema E \<longrightarrow> \<not> schema_valid (json_body rq) \<longrightarrow>
      post_update E rq now s = (Reply 500 (ErrorBody ''INTERNAL_SERVER_ERROR''), s))
   \<and> ((body_schema E \<longrightarrow> schema_valid (json_body rq)) \<longrightarrow>
      (authorization rq = NoToken \<longrightarrow>
         post_update E rq now s = (Reply 401 (ErrorBody ''MISSING_TOKEN''), s))
      \<and> (authorization rq = BadToken \<longrightarrow>
         post_update E rq now s = (Reply 401 (ErrorBody ''INVALID_TOKEN''), s))
      \<and> (authorization rq = Verified u \<longrightarrow>
          getRateLimit (cache s) (keyGenerator scoreUpdate_limiter (Some u)) now \<ge> 10 \<longrightarrow>
         post_update E rq now s = (Reply 429 (TooManyRequests 60), s))
      \<and> (authorization rq = Verified u \<longrightarrow>
          getRateLimit (cache s) (keyGenerator scoreUpdate_limiter (Some u)) now < 10 \<longrightarrow>
          missing_fields (json_body rq) \<longrightarrow>
         fst (post_update E rq now s) = Reply 400 (ErrorBody ''MISSING_FIELDS'')
         \<and> db (snd (post_update E rq now s)) = db s)
      \<and> (authorization rq = Verified u \<longrightarrow>
          getRateLimit (cache s) (keyGenerator scoreUpdate_limiter (Some u)) now < 10 \<longrightarrow>
          \<not> missing_fields (json_body rq) \<longrightarrow>
          findUnique_action (db s) (actionId (as_request (json_body rq))) \<noteq> None \<longrightarrow>
         fst (post_update E rq now s) = Reply 400 (ErrorBody ''DUPLICATE_ACTION'')
         \<and> db (snd (post_update E rq now s)) = db s)
      \<and> (authorization rq = Verified u \<longrightarrow>
          getRateLimit (cache s) (keyGenerator scoreUpdate_limiter (Some u)) now < 10 \<longrightarrow>
          \<not> missing_fields (json_body rq) \<longrightarrow>
          findUnique_action (db s) (actionId (as_request (json_body rq))) = None \<longrightarrow>
          actionHash (as_request (json_body rq)) \<noteq>
            generateActionHash E (actionId (as_request (json_body rq)))
              (scoreIncrement (as_request (json_body rq))) (timestamp (as_request (json_body rq))) \<longrightarrow>
         fst (post_update E rq now s) = Reply 400 (ErrorBody ''INVALID_ACTION_HASH'')
         \<and> db (snd (post_update E rq now s)) = db s)
      \<and> (authorization rq = Verified u \<longrightarrow>
          getRateLimit (cache s) (keyGenerator scoreUpdate_limiter (Some u)) now < 10 \<longrightarrow>
          \<not> missing_fields (json_body rq) \<longrightarrow>
          findUnique_action (db s) (actionId (as_request (json_body rq))) = None \<longrightarrow>
          actionHash (as_request (json_body rq)) =
            generateActionHash E (actionId (as_request (json_body rq)))
              (scoreIncrement (as_request (json_body rq))) (timestamp (as_request (json_body rq))) \<longrightarrow>
          (scoreIncrement (as_request (json_body rq)) < 1 \<or> scoreIncrement (as_request (json_body rq)) > 1000) \<longrightarrow>
         fst (post_update E rq now s) = Reply 400 (ErrorBody ''INVALID_SCORE_INCREMENT'')
         \<and> db (snd (post_update E rq now s)) = db s))"
proof (intro conjI impI)
  assume "body_schema E" "\<not> schema_valid (json_body rq)"
  then show "post_update E rq now s = (Reply 500 (ErrorBody ''INTERNAL_SERVER_ERROR''), s)"
    by (rule post_update_schema)
next
  assume ok: "body_schema E \<longrightarrow> schema_valid (json_body rq)"
  note hooks = post_update_hooks[OF ok, of now s]
  have auth: "authorization rq = Verified u \<Longrightarrow> authenticateToken (authorization rq) = Inr u" for u
    by (simp add: authenticateToken_def)
  have limited: "getRateLimit (cache s) (keyGenerator scoreUpdate_limiter (Some u)) now \<ge> 10 \<Longrightarrow>
      rateLimit scoreUpdate_limiter (Some u) now (cache s) = (Sent (Reply 429 (TooManyRequests 60)), cache s)" for u
    by (simp add: rateLimit_def rateLimit_decide_def Let_def)
       (simp add: scoreUpdate_limiter_def window_seconds_def)
  have admitted: "getRateLimit (cache s) (keyGenerator scoreUpdate_limiter (Some u)) now < 10 \<Longrightarrow>
      \<exists>c'. rateLimit scoreUpdate_limiter (Some u) now (cache s) = (Continue, c')" for u
    by (simp add: rateLimit_def rateLimit_decide_def Let_def)
       (simp add: scoreUpdate_limiter_def)
  have ctl: "authorization rq = Verified u \<Longrightarrow>
      getRateLimit (cache s) (keyGenerator scoreUpdate_limiter (Some u)) now < 10 \<Longrightarrow>
      \<exists>c'. post_update E rq now s =
        controller_updateScore E u (json_body rq) (request_ip rq) now (s\<lparr>cache := c'\<rparr>)" for u
    using admitted[of u] auth[of u] hooks by auto
  {
    assume "authorization rq = NoToken"
    then show "post_update E rq now s = (Reply 401 (ErrorBody ''MISSING_TOKEN''), s)"
      using hooks by (simp add: authenticateToken_def)
  next
    assume "authorization rq = BadToken"
    then show "post_update E rq now s = (Reply 401 (ErrorBody ''INVALID_TOKEN''), s)"
      using hooks by (simp add: authenticateToken_def)
  next
    assume "authorization rq = Verified u"
      "getRateLimit (cache s) (keyGenerator scoreUpdate_limiter (Some u)) now \<ge> 10"
    then show "post_update E rq now s = (Reply 429 (TooManyRequests 60), s)"
      using limited[of u] auth[of u] hooks by simp
  next
    assume a: "authorization rq = Verified u"
      "getRateLimit (cache s) (keyGenerator scoreUpdate_limiter (Some u)) now < 10"
      and m: "missing_fields (json_body rq)"
    from ctl[OF a] obtain c' where "post_update E rq now s =
        controller_updateScore E u (json_body rq) (request_ip rq) now (s\<lparr>cache := c'\<rparr>)" by blast
    with controller_missing[OF m] show "fst (post_update E rq now s) = Reply 400 (ErrorBody ''MISSING_FIELDS'')"
      "db (snd (post_update E rq now s)) = db s" by simp_all
  next
    assume a: "authorization rq = Verified u"
      "getRateLimit (cache s) (keyGenerator scoreUpdate_limiter (Some u)) now < 10"
      and m: "\<not> missing_fields (json_body rq)"
      and d: "findUnique_action (db s) (actionId (as_request (json_body rq))) \<noteq> None"
    from ctl[OF a] obtain c' where p: "post_update E rq now s =
        controller_updateScore E u (json_body rq) (request_ip rq) now (s\<lparr>cache := c'\<rparr>)" by blast
    from d have "updateScore E (auth_userId u) (as_request (json_body rq)) (request_ip rq) now (s\<lparr>cache := c'\<rparr>)
        = (Inl ActionAlreadyProcessed, s\<lparr>cache := c'\<rparr>)"
      using updateScore_duplicate[of "s\<lparr>cache := c'\<rparr>"] by auto
    with p controller_present[OF m]
    show "fst (post_update E rq now s) = Reply 400 (ErrorBody ''DUPLICATE_ACTION'')"
      "db (snd (post_update E rq now s)) = db s" by (simp_all add: errorCode_own)
  next
    assume a: "authorization rq = Verified u"
      "getRateLimit (cache s) (keyGenerator scoreUpdate_limiter (Some u)) now < 10"
      and m: "\<not> missing_fields (json_body rq)"
      and d: "findUnique_action (db s) (actionId (as_request (json_body rq))) = None"
      and h: "actionHash (as_request (json_body rq)) \<noteq>
         generateActionHash E (actionId (as_request (json_body rq)))
           (scoreIncrement (as_request (json_body rq))) (timestamp (as_request (json_body rq)))"
    from ctl[OF a] obtain c' where p: "post_update E rq now s =
        controller_updateScore E u (json_body rq) (request_ip rq) now (s\<lparr>cache := c'\<rparr>)" by blast
    from d h have "updateScore E (auth_userId u) (as_request (json_body rq)) (request_ip rq) now (s\<lparr>cache := c'\<rparr>)
        = (Inl InvalidActionHash, s\<lparr>cache := c'\<rparr>)"
      by (simp add: updateScore_def validate_update_def)
    with p controller_present[OF m]
    show "fst (post_update E rq now s) = Reply 400 (ErrorBody ''INVALID_ACTION_HASH'')"
      "db (snd (post_update E rq now s)) = db s" by (simp_all add: errorCode_own)
  next
    assume a: "authorization rq = Verified u"
      "getRateLimit (cache s) (keyGenerator scoreUpdate_limiter (Some u)) now < 10"
      and m: "\<not> missing_fields (json_body rq)"
      and d: "findUnique_action (db s) (actionId (as_request (json_body rq))) = None"
      and h: "actionHash (as_request (json_body rq)) =
         generateActionHash E (actionId (as_request (json_body rq)))
           (scoreIncrement (as_request (json_body rq))) (timestamp (as_request (json_body rq)))"
      and b: "scoreIncrement (as_request (json_body rq)) < 1 \<or> scoreIncrement (as_request (json_body rq)) > 1000"
    from ctl[OF a] obtain c' where p: "post_update E rq now s =
        controller_updateScore E u (json_body rq) (request_ip rq) now (s\<lparr>cache := c'\<rparr>)" by blast
    from d h b have "updateScore E (auth_userId u) (as_request (json_body rq)) (request_ip rq) now (s\<lparr>cache := c'\<rparr>)
        = (Inl ScoreIncrementOutOfRange, s\<lparr>cache := c'\<rparr>)"
      by (auto simp add: updateScore_def validate_update_def)
    with p controller_present[OF m]
    show "fst (post_update E rq now s) = Reply 400 (ErrorBody ''INVALID_SCORE_INCREMENT'')"
      "db (snd (post_update E rq now s)) = db s" by (simp_all add: errorCode_own)
  }
qed

text \<open>
  C7 on sample requests with the body schema in force, one for each check: a body
  without \<^verbatim>\<open>actionHash\<close> and without a token fails the schema; the rest pass it.
\<close>

theorem checks_in_code_order_witness:
  "body_schema toy_setting
   \<and> \<not> schema_valid (json_body anonymous_no_hash_post)
   \<and> post_update toy_setting anonymous_no_hash_post 1705314602000 alice_system
       = (Reply 500 (ErrorBody ''INTERNAL_SERVER_ERROR''), alice_system)
   \<and> schema_valid (json_body no_id_post)
   \<and> post_update toy_setting (no_id_post\<lparr>authorization := NoToken\<rparr>) 1705314602000
         (alice_system\<lparr>cache := exhausted_cache\<rparr>)
       = (Reply 401 (ErrorBody ''MISSING_TOKEN''), alice_system\<lparr>cache := exhausted_cache\<rparr>)
   \<and> post_update toy_setting (no_id_post\<lparr>authorization := BadToken\<rparr>) 1705314602000
         (alice_system\<lparr>cache := exhausted_cache\<rparr>)
       = (Reply 401 (ErrorBody ''INVALID_TOKEN''), alice_system\<lparr>cache := exhausted_cache\<rparr>)
   \<and> post_update toy_setting no_id_post 1705314602000 (alice_system\<lparr>cache := exhausted_cache\<rparr>)
       = (Reply 429 (TooManyRequests 60), alice_system\<lparr>cache := exhausted_cache\<rparr>)
   \<and> missing_fields (json_body no_id_post)
   \<and> fst (post_update toy_setting no_id_post 1705314602000 alice_system)
       = Reply 400 (ErrorBody ''MISSING_FIELDS'')
   \<and> fst (post_update toy_setting (post_of alice forged_token) 1705314602000 logged_system)
       = Reply 400 (ErrorBody ''DUPLICATE_ACTION'')
   \<and> fst (post_update toy_setting (post_of alice big_forged_token) 1705314602000 alice_system)
       = Reply 400 (ErrorBody ''INVALID_ACTION_HASH'')
   \<and> fst (post_update toy_setting (post_of alice big_token) 1705314602000 alice_system)
       = Reply 400 (ErrorBody ''INVALID_SCORE_INCREMENT'')"
proof -
  have sch: "body_schema toy_setting" by (simp add: toy_setting_def)
  have bad: "\<not> schema_valid (json_body anonymous_no_hash_post)"
    by (simp add: schema_valid_def anonymous_no_hash_post_def no_hash_post_def)
  have ok: "schema_valid (json_body no_id_post)"
    "schema_valid (json_body (no_id_post\<lparr>authorization := NoToken\<rparr>))"
    "schema_valid (json_body (no_id_post\<lparr>authorization := BadToken\<rparr>))"
    "schema_valid (json_body (post_of alice r))" for r
    by (simp_all add: schema_valid_def no_id_post_def post_of_def)
  have full: "getRateLimit (cache (alice_system\<lparr>cache := exhausted_cache\<rparr>))
       (keyGenerator scoreUpdate_limiter (Some alice)) 1705314602000 \<ge> 10"
    by (simp add: scoreUpdate_key getRateLimit_def redis_get_counter_def exhausted_cache_def)
  have free: "getRateLimit (cache alice_system) (keyGenerator scoreUpdate_limiter (Some alice)) 1705314602000 < 10"
    "getRateLimit (cache logged_system) (keyGenerator scoreUpdate_limiter (Some alice)) 1705314602000 < 10"
    by (simp_all add: scoreUpdate_key getRateLimit_def redis_get_counter_def sample_defs)
  have v: "authorization no_id_post = Verified alice" "authorization (post_of alice r) = Verified alice"
    "authorization (no_id_post\<lparr>authorization := NoToken\<rparr>) = NoToken"
    "authorization (no_id_post\<lparr>authorization := BadToken\<rparr>) = BadToken" for r
    by (simp_all add: no_id_post_def post_of_def)
  have m: "missing_fields (json_body no_id_post)"
    "\<not> missing_fields (json_body (post_of alice forged_token))"
    "\<not> missing_fields (json_body (post_of alice big_forged_token))"
    "\<not> missing_fields (json_body (post_of alice big_token))"
    by (simp_all add: missing_fields_def sample_defs)
  have r: "as_request (json_body (post_of alice q)) = q" for q
    by (simp add: as_request_def post_of_def)
  have 0: "post_update toy_setting anonymous_no_hash_post 1705314602000 alice_system
       = (Reply 500 (ErrorBody ''INTERNAL_SERVER_ERROR''), alice_system)"
    using checks_in_code_order[where rq = anonymous_no_hash_post and E = toy_setting
        and now = 1705314602000 and s = alice_system] sch bad by blast
  have 1: "post_update toy_setting (no_id_post\<lparr>authorization := NoToken\<rparr>) 1705314602000
         (alice_system\<lparr>cache := exhausted_cache\<rparr>)
       = (Reply 401 (ErrorBody ''MISSING_TOKEN''), alice_system\<lparr>cache := exhausted_cache\<rparr>)"
    using checks_in_code_order[where rq = "no_id_post\<lparr>authorization := NoToken\<rparr>" and E = toy_setting
        and now = 1705314602000 and s = "alice_system\<lparr>cache := exhausted_cache\<rparr>"] v ok by blast
  have bt: "post_update toy_setting (no_id_post\<lparr>authorization := BadToken\<rparr>) 1705314602000
         (alice_system\<lparr>cache := exhausted_cache\<rparr>)
       = (Reply 401 (ErrorBody ''INVALID_TOKEN''), alice_system\<lparr>cache := exhausted_cache\<rparr>)"
    using checks_in_code_order[where rq = "no_id_post\<lparr>authorization := BadToken\<rparr>" and E = toy_setting
        and now = 1705314602000 and s = "alice_system\<lparr>cache := exhausted_cache\<rparr>"] v ok by blast
  have 2: "post_update toy_setting no_id_post 1705314602000 (alice_system\<lparr>cache := exhausted_cache\<rparr>)
       = (Reply 429 (TooManyRequests 60), alice_system\<lparr>cache := exhausted_cache\<rparr>)"
    using checks_in_code_order[where rq = no_id_post and u = alice and now = 1705314602000
        and E = toy_setting and s = "alice_system\<lparr>cache := exhausted_cache\<rparr>"] v ok full by blast
  have 3: "fst (post_update toy_setting no_id_post 1705314602000 alice_system)
       = Reply 400 (ErrorBody ''MISSING_FIELDS'')"
    using checks_in_code_order[where rq = no_id_post and u = alice and now = 1705314602000
        and E = toy_setting and s = alice_system] v ok free m by blast
  have "findUnique_action (db logged_system) (actionId forged_token) \<noteq> None"
    by (simp add: findUnique_action_def sample_defs)
  then have 4: "fst (post_update toy_setting (post_of alice forged_token) 1705314602000 logged_system)
       = Reply 400 (ErrorBody ''DUPLICATE_ACTION'')"
    using checks_in_code_order[where rq = "post_of alice forged_token" and u = alice and now = 1705314602000
        and E = toy_setting and s = logged_system] v ok free m r by simp
  have "findUnique_action (db alice_system) (actionId big_forged_token) = None"
     "actionHash big_forged_token \<noteq> generateActionHash toy_setting (actionId big_forged_token)
           (scoreIncrement big_forged_token) (timestamp big_forged_token)"
    by (simp_all add: findUnique_action_def sample_defs generateActionHash_def)
  then have 5: "fst (post_update toy_setting (post_of alice big_forged_token) 1705314602000 alice_system)
       = Reply 400 (ErrorBody ''INVALID_ACTION_HASH'')"
    using checks_in_code_order[where rq = "post_of alice big_forged_token" and u = alice and now = 1705314602000
        and s = alice_system and E = toy_setting] v ok free m r by simp
  have "findUnique_action (db alice_system) (actionId big_token) = None"
     "actionHash big_token = generateActionHash toy_setting (actionId big_token)
           (scoreIncrement big_token) (timestamp big_token)"
     "scoreIncrement big_token > 1000"
    by (simp_all add: findUnique_action_def sample_defs generateActionHash_def digits.simps)
  then have 6: "fst (post_update toy_setting (post_of alice big_token) 1705314602000 alice_system)
       = Reply 400 (ErrorBody ''INVALID_SCORE_INCREMENT'')"
    using checks_in_code_order[where rq = "post_of alice big_token" and u = alice and now = 1705314602000
        and s = alice_system and E = toy_setting] v ok free m r by simp
  from sch bad ok(1) 0 1 bt 2 3 4 5 6 m(1) show ?thesis by blast
qed

subsection \<open>Freshness of the timestamp\<close>

lemma update_score_row_score:
  "(\<And>r. score (f r) = score (g r)) \<Longrightarrow>
     map_option (\<lambda>p. score (fst p)) (update_score_row uid f rs)
       = map_option (\<lambda>p. score (fst p)) (update_score_row uid g rs)"
  by (induction rs) (auto split: option.splits)

lemma tx_score_update_isl:
  "isl (tx_score_update uid inc now d) = isl (tx_score_update uid inc now' d)"
proof -
  let ?f = "\<lambda>t r. r\<lparr>score := score r + \<lfloor>inc\<rfloor>, lastUpdated := t\<rparr>"
  have "map_option (\<lambda>p. score (fst p)) (update_score_row uid (?f now) (scores d))
      = map_option (\<lambda>p. score (fst p)) (update_score_row uid (?f now') (scores d))"
    by (rule update_score_row_score) simp
  then show ?thesis
    by (cases "update_score_row uid (?f now) (scores d)";
        cases "update_score_row uid (?f now') (scores d)")
       (auto simp: tx_score_update_def)
qed

lemma update_tx_isl:
  "isl (update_tx E uid req ip' now d) = isl (update_tx E uid req ip' now' d)"
proof (cases "tx_score_update uid (scoreIncrement req) now d")
  case (Inl e)
  with tx_score_update_isl[of uid "scoreIncrement req" now d now']
  obtain e' where "tx_score_update uid (scoreIncrement req) now' d = Inl e'"
    by (cases "tx_score_update uid (scoreIncrement req) now' d") auto
  with Inl show ?thesis by (simp add: update_tx_def)
next
  case (Inr p)
  obtain row d1 where p: "p = (row, d1)" by (cases p)
  from Inr tx_score_update_isl[of uid "scoreIncrement req" now d now']
  obtain row' d1' where r': "tx_score_update uid (scoreIncrement req) now' d = Inr (row', d1')"
    by (cases "tx_score_update uid (scoreIncrement req) now' d") auto
  from tx_score_update_logs[OF Inr[unfolded p]] tx_score_update_logs[OF r']
  have "actionLogs d1 = actionLogs d1'" by simp
  with Inr p r' show ?thesis
    by (simp add: update_tx_def tx_actionLog_create_def findUnique_action_def split: option.splits)
qed

lemma accept_ignores_clock:
  "isl (fst (updateScore E uid req ip' now s)) = isl (fst (updateScore E uid req ip' now' s))"
  using update_tx_isl[of E uid req ip' now "db s" now']
  by (auto simp: updateScore_def commit_update_def transaction_def split: option.splits sum.splits prod.splits)

text \<open>
  Claim C3, evaluated.  A token issued at the epoch is presented in 2024, far
  beyond five minutes later: the reply is 200 and the score is 50.
\<close>

theorem stale_token_accepted:
  "new_Date toy_setting (timestamp stale_token) = Some 0
   \<and> \<bar>1705314601000 - (0::int)\<bar> > 5 * 60 * 1000
   \<and> fst (post_update toy_setting (post_of alice stale_token) 1705314601000 alice_system)
       = Reply 200 (UpdateSuccess \<lparr>upd_userId = ''alice'', newScore = 50, upd_rank = 1\<rparr>)
   \<and> scores (db (snd (post_update toy_setting (post_of alice stale_token) 1705314601000 alice_system)))
       = [\<lparr>userId = ''alice'', score = 50, lastUpdated = 1705314601000\<rparr>]"
  by (simp add: model_defs sample_defs digits.simps Let_def)

subsection \<open>The rank of one user\<close>

lemma cache_miss_rank:
  "cache_getUserScore (cache s) uid = None \<Longrightarrow>
     map_option us_rank (fst (getUserScore uid now s)) = spec_rank (db s) uid"
  by (simp add: getUserScore_def spec_rank_def rank_count_def split: option.splits)

text \<open>
  Claim C4, evaluated.  Right after her update alice's score is in the cache;
  \<^verbatim>\<open>getUserScore\<close> then counts her own row and returns rank 2 for the only user,
  where the formula gives 1.  With the same database and an empty cache the
  result is 1.
\<close>

theorem cache_hit_rank_off:
  "cache_getUserScore (cache (snd (post_update toy_setting post50 1705314601000 alice_system))) ''alice''
      = Some 50
   \<and> map_option us_rank
        (fst (getUserScore ''alice'' 1705314605000
               (snd (post_update toy_setting post50 1705314601000 alice_system)))) = Some 2
   \<and> spec_rank (db (snd (post_update toy_setting post50 1705314601000 alice_system))) ''alice'' = Some 1
   \<and> cache_getUserScore (cache logged_system) ''alice'' = None
   \<and> map_option us_rank (fst (getUserScore ''alice'' 1705314605000 logged_system)) = Some 1
   \<and> spec_rank (db logged_system) ''alice'' = Some 1"
  by (simp add: model_defs sample_defs spec_rank_def digits.simps Let_def)

subsection \<open>The status of a duplicate\<close>

text \<open>
  Claim C6, evaluated.  The route answers with 200, 400, 401, 429 or 500 and
  nothing else; a replayed action id gets 400 with the code \<^verbatim>\<open>DUPLICATE_ACTION\<close>.
\<close>

theorem duplicate_status_400:
  "status (fst (post_update E rq now s)) \<in> {200, 400, 401, 429, 500}
   \<and> fst (post_update toy_setting post50 1705314602000 logged_system)
       = Reply 400 (ErrorBody ''DUPLICATE_ACTION'')"
proof
  obtain r s' where p: "post_update E rq now s = (r, s')"
    by (cases "post_update E rq now s") auto
  show "status (fst (post_update E rq now s)) \<in> {200, 400, 401, 429, 500}"
  proof (cases "authenticateToken (authorization rq)")
    case (Inl a)
    then show ?thesis
      by (auto simp: post_update_def authenticateToken_def split: bearer.splits)
  next
    case (Inr user)
    obtain hr c' where rl: "rateLimit scoreUpdate_limiter (Some user) now (cache s) = (hr, c')"
      by (cases "rateLimit scoreUpdate_limiter (Some user) now (cache s)") auto
    show ?thesis
    proof (cases hr)
      case (Sent x)
      with rl have "x = Reply 429 (TooManyRequests (window_seconds (windowMs scoreUpdate_limiter)))"
        by (auto simp: rateLimit_def rateLimit_decide_def Let_def split: if_splits)
      with Sent rl Inr show ?thesis by (simp add: post_update_def)
    next
      case Continue
      obtain r s' where c: "controller_updateScore E user (json_body rq) (request_ip rq) now (s\<lparr>cache := c'\<rparr>) = (r, s')"
        by (cases "controller_updateScore E user (json_body rq) (request_ip rq) now (s\<lparr>cache := c'\<rparr>)") auto
      from controller_cases[OF c] have "status r = 400 \<or> status r = 200" by auto
      with c Continue rl Inr show ?thesis by (auto simp: post_update_def)
    qed
  qed
next
  show "fst (post_update toy_setting post50 1705314602000 logged_system)
       = Reply 400 (ErrorBody ''DUPLICATE_ACTION'')"
    by (simp add: model_defs sample_defs digits.simps Let_def)
qed

subsection \<open>What the request handlers leave alone in the cache\<close>

lemma cache_ops_frame:
  "redis_up (setScoreboard sb c) = redis_up c"
  "rate_limit_keys (setScoreboard sb c) = rate_limit_keys c"
  "redis_up (setUserScore uid v c) = redis_up c"
  "rate_limit_keys (setUserScore uid v c) = rate_limit_keys c"
  "redis_up (invalidateScoreboard c) = redis_up c"
  "rate_limit_keys (invalidateScoreboard c) = rate_limit_keys c"
  "redis_up (invalidateUserScore uid c) = redis_up c"
  "rate_limit_keys (invalidateUserScore uid c) = rate_limit_keys c"
  by (simp_all add: setScoreboard_def setUserScore_def invalidateScoreboard_def invalidateUserScore_def)

lemma getTopScores_cache_frame:
  "redis_up (cache (snd (getTopScores k s))) = redis_up (cache s)
   \<and> rate_limit_keys (cache (snd (getTopScores k s))) = rate_limit_keys (cache s)"
  by (simp add: getTopScores_def Let_def cache_ops_frame split: option.splits)

lemma updateScore_cache_frame:
  "redis_up (cache (snd (updateScore E uid req ip' now s))) = redis_up (cache s)
   \<and> rate_limit_keys (cache (snd (updateScore E uid req ip' now s))) = rate_limit_keys (cache s)"
  by (simp add: updateScore_def commit_update_def cache_ops_frame
       split: option.splits sum.splits prod.splits)

lemma controller_cache_frame:
  "redis_up (cache (snd (controller_updateScore E user b ip' now s))) = redis_up (cache s)
   \<and> rate_limit_keys (cache (snd (controller_updateScore E user b ip' now s))) = rate_limit_keys (cache s)"
proof -
  obtain r s' where c: "controller_updateScore E user b ip' now s = (r, s')"
    by (cases "controller_updateScore E user b ip' now s") auto
  from controller_cases[OF c] show ?thesis
  proof
    assume "status r = 400 \<and> s' = s"
    with c show ?thesis by simp
  next
    assume "\<exists>aid inc ts h res s1.
            body_actionId b = Some aid \<and> body_scoreIncrement b = Some inc \<and>
                  body_timestamp b = Some ts \<and> body_actionHash b = Some h \<and>
            updateScore E (auth_userId user)
               \<lparr>actionId = aid, scoreIncrement = inc, timestamp = ts, actionHash = h\<rparr> ip' now s
              = (Inr res, s1) \<and>
            r = Reply 200 (UpdateSuccess res) \<and>
            s' = broadcastScoreboardUpdate (fst (getTopScores 10 s1)) (snd (getTopScores 10 s1))"
    then obtain aid inc ts h res s1 where
      u: "updateScore E (auth_userId user)
               \<lparr>actionId = aid, scoreIncrement = inc, timestamp = ts, actionHash = h\<rparr> ip' now s
              = (Inr res, s1)" and
      s': "s' = broadcastScoreboardUpdate (fst (getTopScores 10 s1)) (snd (getTopScores 10 s1))"
      by blast
    from updateScore_cache_frame[of E "auth_userId user"
        "\<lparr>actionId = aid, scoreIncrement = inc, timestamp = ts, actionHash = h\<rparr>" ip' now s] u
    have "redis_up (cache s1) = redis_up (cache s)" "rate_limit_keys (cache s1) = rate_limit_keys (cache s)"
      by simp_all
    with s' c getTopScores_cache_frame[of 10 s1] show ?thesis
      by (simp add: broadcastScoreboardUpdate_def)
  qed
qed

lemma controller_status:
  "status (fst (controller_updateScore E user b ip' now s)) = 400
   \<or> status (fst (controller_updateScore E user b ip' now s)) = 200"
proof -
  obtain r s' where c: "controller_updateScore E user b ip' now s = (r, s')"
    by (cases "controller_updateScore E user b ip' now s") auto
  from controller_cases[OF c] c show ?thesis by auto
qed

lemma authenticateToken_Verified:
  "authenticateToken (Verified u) = Inr u"
  by (simp add: authenticateToken_def)

lemma run_posts_Cons:
  "post_update E (fst p) (snd p) s = (r, s1) \<Longrightarrow>
     fst (run_posts E (p # ps) s) = r # fst (run_posts E ps s1)
     \<and> snd (run_posts E (p # ps) s) = snd (run_posts E ps s1)"
  by (simp add: Let_def split: prod.splits)

subsection \<open>The rate limiter without Redis\<close>

lemma rateLimit_down:
  "\<not> redis_up c \<Longrightarrow> 0 < maxRequests opts \<Longrightarrow> rateLimit opts user now c = (Continue, c)"
  by (simp add: rateLimit_def rateLimit_decide_def getRateLimit_def incrementRateLimit_def Let_def)

lemma post_update_down:
  assumes "\<not> redis_up (cache s)"
  shows "status (fst (post_update E rq now s)) \<noteq> 429
         \<and> \<not> redis_up (cache (snd (post_update E rq now s)))"
proof (cases "body_schema E \<and> \<not> schema_valid (json_body rq)")
  case True
  with assms show ?thesis by (simp add: post_update_def)
next
  case False
  then have ok: "body_schema E \<longrightarrow> schema_valid (json_body rq)" by simp
  note hooks = post_update_hooks[OF ok, of now s]
  show ?thesis
  proof (cases "authorization rq")
    case NoToken
    with assms hooks show ?thesis by (simp add: authenticateToken_def)
  next
    case BadToken
    with assms hooks show ?thesis by (simp add: authenticateToken_def)
  next
    case (Verified u)
    have "rateLimit scoreUpdate_limiter (Some u) now (cache s) = (Continue, cache s)"
      using assms by (intro rateLimit_down) (simp_all add: scoreUpdate_limiter_def)
    with Verified hooks have p: "post_update E rq now s
        = controller_updateScore E u (json_body rq) (request_ip rq) now s"
      by (simp add: authenticateToken_Verified)
    from controller_status[of E u "json_body rq" "request_ip rq" now s]
         controller_cache_frame[of E u "json_body rq" "request_ip rq" now s] assms p
    show ?thesis by auto
  qed
qed

lemma run_posts_down:
  "\<not> redis_up (cache s) \<Longrightarrow> list_all (\<lambda>r. status r \<noteq> 429) (fst (run_posts E ps s))"
proof (induction ps arbitrary: s)
  case Nil
  then show ?case by simp
next
  case (Cons p ps)
  obtain r s1 where p1: "post_update E (fst p) (snd p) s = (r, s1)"
    by (cases "post_update E (fst p) (snd p) s") auto
  from post_update_down[OF Cons.prems, of E "fst p" "snd p"] p1
  have "status r \<noteq> 429" "\<not> redis_up (cache s1)" by simp_all
  with Cons.IH[of s1] run_posts_Cons[OF p1, of ps] show ?case by simp
qed

text \<open>
  Claim C10.  With Redis unreachable \<^verbatim>\<open>getRateLimit\<close> returns 0 and
  \<^verbatim>\<open>incrementRateLimit\<close> returns 0 and changes nothing, so every limiter with a
  positive \<^verbatim>\<open>maxRequests\<close> lets every request through and leaves the cache as it
  was; on the update route no request of any sequence is answered 429 while Redis
  is down.
\<close>

theorem rate_limit_fails_open:
  "(\<not> redis_up c \<longrightarrow>
      getRateLimit c key now = 0
      \<and> incrementRateLimit key ttl now c = (0, c)
      \<and> (0 < maxRequests opts \<longrightarrow> rateLimit opts user now c = (Continue, c)))
   \<and> (\<not> redis_up (cache s) \<longrightarrow>
      list_all (\<lambda>r. status r \<noteq> 429) (fst (run_posts E ps s)))"
  using rateLimit_down run_posts_down
  by (auto simp: getRateLimit_def incrementRateLimit_def)

text \<open>
  C10 on a cache whose score-update counter stands at the limit: with Redis up the
  hook answers 429, with Redis down the same counter is not seen, both limiters
  let alice through, and eleven requests in a row get no 429.
\<close>

theorem rate_limit_fails_open_witness:
  "\<not> redis_up down_cache
   \<and> rate_limit_keys down_cache score_update_key = Some (10, 1705314660000)
   \<and> getRateLimit down_cache ''rate_limit:score_update:anonymous'' 1705314602000 = 0
   \<and> rateLimit scoreUpdate_limiter (Some alice) 1705314602000 down_cache = (Continue, down_cache)
   \<and> rateLimit cacheManagement_limiter (Some alice) 1705314602000 down_cache = (Continue, down_cache)
   \<and> fst (rateLimit scoreUpdate_limiter (Some alice) 1705314602000 exhausted_cache)
       = Sent (Reply 429 (TooManyRequests 60))
   \<and> list_all (\<lambda>r. status r \<noteq> 429)
        (fst (run_posts toy_setting (ten_posts @ [(post50, 1705314601010)])
               (alice_system\<lparr>cache := down_cache\<rparr>)))"
proof -
  have d: "\<not> redis_up down_cache" "\<not> redis_up (cache (alice_system\<lparr>cache := down_cache\<rparr>))"
    by (simp_all add: down_cache_def)
  have k: "rate_limit_keys down_cache score_update_key = Some (10, 1705314660000)"
    by (simp add: down_cache_def exhausted_cache_def score_update_key_def)
  have m: "0 < maxRequests scoreUpdate_limiter" "0 < maxRequests cacheManagement_limiter"
    by (simp_all add: scoreUpdate_limiter_def cacheManagement_limiter_def)
  have up: "fst (rateLimit scoreUpdate_limiter (Some alice) 1705314602000 exhausted_cache)
       = Sent (Reply 429 (TooManyRequests 60))"
    by (simp add: model_defs sample_defs Let_def)
  from d(1) rate_limit_fails_open[where c = down_cache and now = 1705314602000
      and key = "''rate_limit:score_update:anonymous''"]
  have 1: "getRateLimit down_cache ''rate_limit:score_update:anonymous'' 1705314602000 = 0" by blast
  from d(1) m(1) rate_limit_fails_open[where c = down_cache and now = 1705314602000
      and opts = scoreUpdate_limiter and user = "Some alice"]
  have 2: "rateLimit scoreUpdate_limiter (Some alice) 1705314602000 down_cache = (Continue, down_cache)"
    by blast
  from d(1) m(2) rate_limit_fails_open[where c = down_cache and now = 1705314602000
      and opts = cacheManagement_limiter and user = "Some alice"]
  have 3: "rateLimit cacheManagement_limiter (Some alice) 1705314602000 down_cache = (Continue, down_cache)"
    by blast
  from d(2) rate_limit_fails_open[where s = "alice_system\<lparr>cache := down_cache\<rparr>"
      and E = toy_setting and ps = "ten_posts @ [(post50, 1705314601010)]"]
  have 4: "list_all (\<lambda>r. status r \<noteq> 429)
        (fst (run_posts toy_setting (ten_posts @ [(post50, 1705314601010)])
               (alice_system\<lparr>cache := down_cache\<rparr>)))" by blast
  from d(1) k 1 2 3 up 4 show ?thesis by blast
qed

subsection \<open>The rate limit\<close>

lemma getRateLimit_count:
  "redis_up c \<Longrightarrow> getRateLimit c ''rate_limit:score_update:anonymous'' now = int (score_update_count c now)"
  by (simp add: getRateLimit_def score_update_count_def score_update_key_def split: option.splits)

lemma post_update_unverified:
  "\<forall>v. authorization rq \<noteq> Verified v \<Longrightarrow>
     (status (fst (post_update E rq now s)) = 401 \<or> status (fst (post_update E rq now s)) = 500)
     \<and> snd (post_update E rq now s) = s"
  by (cases "authorization rq") (simp_all add: post_update_def authenticateToken_def)

lemma post_update_limited:
  assumes "redis_up (cache s)" "authorization rq = Verified u" "10 \<le> score_update_count (cache s) now"
    and ok: "body_schema E \<longrightarrow> schema_valid (json_body rq)"
  shows "post_update E rq now s = (Reply 429 (TooManyRequests 60), s)"
proof -
  have "rateLimit scoreUpdate_limiter (Some u) now (cache s)
      = (Sent (Reply 429 (TooManyRequests 60)), cache s)"
    using assms(1,3) getRateLimit_count[OF assms(1), of now]
    by (simp add: rateLimit_def scoreUpdate_key rateLimit_decide_def Let_def)
       (simp add: scoreUpdate_limiter_def window_seconds_def)
  with assms(2) post_update_hooks[OF ok, of now s] show ?thesis
    by (simp add: authenticateToken_Verified)
qed

lemma post_update_admitted:
  assumes "redis_up (cache s)" "authorization rq = Verified u" "score_update_count (cache s) now < 10"
    and ok: "body_schema E \<longrightarrow> schema_valid (json_body rq)"
  shows "admitted (fst (post_update E rq now s))
     \<and> redis_up (cache (snd (post_update E rq now s)))
     \<and> rate_limit_keys (cache (snd (post_update E rq now s))) score_update_key
         = Some (score_update_count (cache s) now + 1, now + 60000)"
proof -
  let ?c' = "(cache s)\<lparr>rate_limit_keys := (rate_limit_keys (cache s))
      (score_update_key := Some (score_update_count (cache s) now + 1, now + 60000))\<rparr>"
  have "rateLimit scoreUpdate_limiter (Some u) now (cache s) = (Continue, ?c')"
    using assms(1,3) getRateLimit_count[OF assms(1), of now]
    by (simp add: rateLimit_def scoreUpdate_key rateLimit_decide_def Let_def)
       (simp add: scoreUpdate_limiter_def window_seconds_def incrementRateLimit_def Let_def
          score_update_count_def score_update_key_def)
  with assms(2) post_update_hooks[OF ok, of now s] have p: "post_update E rq now s
      = controller_updateScore E u (json_body rq) (request_ip rq) now (s\<lparr>cache := ?c'\<rparr>)"
    by (simp add: authenticateToken_Verified)
  from controller_status[of E u "json_body rq" "request_ip rq" now "s\<lparr>cache := ?c'\<rparr>"]
       controller_cache_frame[of E u "json_body rq" "request_ip rq" now "s\<lparr>cache := ?c'\<rparr>"]
       assms(1) p
  show ?thesis by (auto simp: admitted_def)
qed

text \<open>One request, seen from the counter.\<close>

lemma post_update_counter_step:
  assumes up: "redis_up (cache s)" and p: "post_update E rq now s = (r, s1)"
  shows "redis_up (cache s1) \<and>
     ((\<not> admitted r \<and> rate_limit_keys (cache s1) = rate_limit_keys (cache s)) \<or>
      (admitted r \<and> score_update_count (cache s) now < 10 \<and>
       rate_limit_keys (cache s1) score_update_key
         = Some (score_update_count (cache s) now + 1, now + 60000)))"
proof (cases "body_schema E \<and> \<not> schema_valid (json_body rq)")
  case True
  with p up show ?thesis by (auto simp: post_update_def admitted_def)
next
  case False
  then have ok: "body_schema E \<longrightarrow> schema_valid (json_body rq)" by simp
  show ?thesis
  proof (cases "\<exists>u. authorization rq = Verified u")
    case False
    then have "\<forall>v. authorization rq \<noteq> Verified v" by simp
    from post_update_unverified[OF this, of E now s] p up
    show ?thesis by (auto simp: admitted_def)
  next
    case True
    then obtain u where v: "authorization rq = Verified u" by blast
    show ?thesis
    proof (cases "score_update_count (cache s) now < 10")
      case True
      from post_update_admitted[OF up v True ok] p True show ?thesis by simp
    next
      case False
      then have "10 \<le> score_update_count (cache s) now" by simp
      from post_update_limited[OF up v this ok] p up show ?thesis by (auto simp: admitted_def)
    qed
  qed
qed

lemma admitted_in_Cons:
  "admitted_in lo hi (p # ps) (r # rs) =
     (if lo \<le> snd p \<and> snd p < hi \<and> admitted r then 1 else 0) + admitted_in lo hi ps rs"
  by (simp add: admitted_in_def)

lemma admitted_in_run_Cons:
  assumes "post_update E (fst p) (snd p) s = (r, s1)"
  shows "admitted_in lo hi (p # ps) (fst (run_posts E (p # ps) s)) =
     (if lo \<le> snd p \<and> snd p < hi \<and> admitted r then 1 else 0)
       + admitted_in lo hi ps (fst (run_posts E ps s1))"
  by (simp only: run_posts_Cons[OF assms] admitted_in_Cons)

lemma admitted_in_mono:
  "hi \<le> hi' \<Longrightarrow> admitted_in lo hi ps rs \<le> admitted_in lo hi' ps rs"
proof (induction ps arbitrary: rs)
  case Nil
  then show ?case by (simp add: admitted_in_def)
next
  case (Cons p ps)
  show ?case
  proof (cases rs)
    case Nil
    then show ?thesis by (simp add: admitted_in_def)
  next
    case (Cons r rs')
    with Cons.IH[OF Cons.prems, of rs'] Cons.prems show ?thesis
      by (auto simp: admitted_in_Cons)
  qed
qed

lemma admitted_in_none:
  "list_all (\<lambda>p. hi \<le> snd p) ps \<Longrightarrow> admitted_in lo hi ps rs = 0"
proof (induction ps arbitrary: rs)
  case Nil
  then show ?case by (simp add: admitted_in_def)
next
  case (Cons p ps)
  then show ?case by (cases rs) (auto simp: admitted_in_Cons admitted_in_def)
qed

lemma sorted_times_tail:
  "sorted (map snd (p # ps)) \<Longrightarrow> sorted (map snd ps) \<and> list_all (\<lambda>q. snd p \<le> snd q) ps"
  by (auto simp: list_all_iff)

text \<open>While one key lives, what is admitted before its expiry fits into what is left of the limit.\<close>

lemma lifetime_bound:
  assumes "redis_up (cache s)" "sorted (map snd ps)"
    "rate_limit_keys (cache s) score_update_key = Some (n, e)"
    "list_all (\<lambda>p. e \<le> snd p + 60000) ps"
  shows "admitted_in lo e ps (fst (run_posts E ps s)) \<le> 10 - n"
  using assms
proof (induction ps arbitrary: s n e)
  case Nil
  then show ?case by (simp add: admitted_in_def)
next
  case (Cons p ps)
  obtain r s1 where p1: "post_update E (fst p) (snd p) s = (r, s1)"
    by (cases "post_update E (fst p) (snd p) s") auto
  note run = admitted_in_run_Cons[OF p1, of _ _ ps]
  from sorted_times_tail[OF Cons.prems(2)] have st: "sorted (map snd ps)"
    and ge: "list_all (\<lambda>q. snd p \<le> snd q) ps" by simp_all
  from Cons.prems(4) have late: "list_all (\<lambda>p. e \<le> snd p + 60000) ps" by simp
  show ?case
  proof (cases "snd p < e")
    case False
    with ge have "list_all (\<lambda>q. e \<le> snd q) (p # ps)" by (auto simp: list_all_iff)
    from admitted_in_none[OF this, of lo "fst (run_posts E (p # ps) s)"] show ?thesis
      by (simp only: le0)
  next
    case True
    then have cnt: "score_update_count (cache s) (snd p) = n"
      using Cons.prems(3) by (simp add: score_update_count_def redis_get_counter_def)
    from post_update_counter_step[OF Cons.prems(1) p1] have up1: "redis_up (cache s1)" and
      alt: "(\<not> admitted r \<and> rate_limit_keys (cache s1) = rate_limit_keys (cache s)) \<or>
        (admitted r \<and> score_update_count (cache s) (snd p) < 10 \<and>
         rate_limit_keys (cache s1) score_update_key
           = Some (score_update_count (cache s) (snd p) + 1, snd p + 60000))" by simp_all
    from alt show ?thesis
    proof
      assume a: "\<not> admitted r \<and> rate_limit_keys (cache s1) = rate_limit_keys (cache s)"
      with Cons.prems(3) have "rate_limit_keys (cache s1) score_update_key = Some (n, e)" by simp
      from Cons.IH[OF up1 st this late] a show ?thesis unfolding run by auto
    next
      assume a: "admitted r \<and> score_update_count (cache s) (snd p) < 10 \<and>
         rate_limit_keys (cache s1) score_update_key
           = Some (score_update_count (cache s) (snd p) + 1, snd p + 60000)"
      with cnt have k: "rate_limit_keys (cache s1) score_update_key = Some (n + 1, snd p + 60000)"
        and n: "n < 10" by simp_all
      from ge have "list_all (\<lambda>q. snd p + 60000 \<le> snd q + 60000) ps" by (simp add: list_all_iff)
      from Cons.IH[OF up1 st k this]
      have ih: "admitted_in lo (snd p + 60000) ps (fst (run_posts E ps s1)) \<le> 10 - (n + 1)" .
      from Cons.prems(4) have "e \<le> snd p + 60000" by simp
      from admitted_in_mono[OF this, of lo ps "fst (run_posts E ps s1)"] ih
      have "admitted_in lo e ps (fst (run_posts E ps s1)) \<le> 10 - (n + 1)" by simp
      with n show ?thesis unfolding run by auto
    qed
  qed
qed

lemma window_bound:
  assumes "redis_up (cache s)" "sorted (map snd ps)"
    "counter_set_by t0 (cache s)" "list_all (\<lambda>p. t0 \<le> snd p) ps"
  shows "admitted_in w (w + 60000) ps (fst (run_posts E ps s)) \<le> 10"
  using assms
proof (induction ps arbitrary: s t0)
  case Nil
  then show ?case by (simp add: admitted_in_def)
next
  case (Cons p ps)
  obtain r s1 where p1: "post_update E (fst p) (snd p) s = (r, s1)"
    by (cases "post_update E (fst p) (snd p) s") auto
  note run = admitted_in_run_Cons[OF p1, of _ _ ps]
  from sorted_times_tail[OF Cons.prems(2)] have st: "sorted (map snd ps)"
    and ge: "list_all (\<lambda>q. snd p \<le> snd q) ps" by simp_all
  from Cons.prems(4) have t0: "t0 \<le> snd p" "list_all (\<lambda>p. t0 \<le> snd p) ps" by simp_all
  from post_update_counter_step[OF Cons.prems(1) p1] have up1: "redis_up (cache s1)" and
    alt: "(\<not> admitted r \<and> rate_limit_keys (cache s1) = rate_limit_keys (cache s)) \<or>
      (admitted r \<and> score_update_count (cache s) (snd p) < 10 \<and>
       rate_limit_keys (cache s1) score_update_key
         = Some (score_update_count (cache s) (snd p) + 1, snd p + 60000))" by simp_all
  from alt show ?case
  proof
    assume a: "\<not> admitted r \<and> rate_limit_keys (cache s1) = rate_limit_keys (cache s)"
    with Cons.prems(3) have "counter_set_by t0 (cache s1)" by (simp add: counter_set_by_def)
    from Cons.IH[OF up1 st this t0(2)] a show ?thesis unfolding run by auto
  next
    assume a: "admitted r \<and> score_update_count (cache s) (snd p) < 10 \<and>
       rate_limit_keys (cache s1) score_update_key
         = Some (score_update_count (cache s) (snd p) + 1, snd p + 60000)"
    then have k: "rate_limit_keys (cache s1) score_update_key
         = Some (score_update_count (cache s) (snd p) + 1, snd p + 60000)" by simp
    show ?thesis
    proof (cases "w \<le> snd p \<and> snd p < w + 60000")
      case True
      from ge have "list_all (\<lambda>q. snd p + 60000 \<le> snd q + 60000) ps" by (simp add: list_all_iff)
      from lifetime_bound[OF up1 st k this, of w E]
      have "admitted_in w (snd p + 60000) ps (fst (run_posts E ps s1)) \<le> 9" by simp
      moreover from True have "w + 60000 \<le> snd p + 60000" by simp
      from admitted_in_mono[OF this, of w ps "fst (run_posts E ps s1)"]
      have "admitted_in w (w + 60000) ps (fst (run_posts E ps s1))
          \<le> admitted_in w (snd p + 60000) ps (fst (run_posts E ps s1))" .
      ultimately show ?thesis unfolding run by auto
    next
      case False
      from k have "counter_set_by (snd p) (cache s1)" by (simp add: counter_set_by_def)
      from Cons.IH[OF up1 st this ge] False show ?thesis unfolding run by auto
    qed
  qed
qed

lemma run_posts_append:
  "run_posts E (ps @ qs) s =
     (fst (run_posts E ps s) @ fst (run_posts E qs (snd (run_posts E ps s))),
      snd (run_posts E qs (snd (run_posts E ps s))))"
  by (induction ps arbitrary: s) (simp_all add: Let_def split: prod.splits)

lemma run_posts_length:
  "length (fst (run_posts E ps s)) = length ps"
proof (induction ps arbitrary: s)
  case Nil
  then show ?case by simp
next
  case (Cons p ps)
  obtain r s1 where p1: "post_update E (fst p) (snd p) s = (r, s1)"
    by (cases "post_update E (fst p) (snd p) s") auto
  from run_posts_Cons[OF p1, of ps] Cons.IH[of s1] show ?case by simp
qed

lemma run_posts_up:
  "redis_up (cache s) \<Longrightarrow> redis_up (cache (snd (run_posts E ps s)))"
proof (induction ps arbitrary: s)
  case Nil
  then show ?case by simp
next
  case (Cons p ps)
  obtain r s1 where p1: "post_update E (fst p) (snd p) s = (r, s1)"
    by (cases "post_update E (fst p) (snd p) s") auto
  from post_update_counter_step[OF Cons.prems p1] have "redis_up (cache s1)" by simp
  from Cons.IH[OF this] run_posts_Cons[OF p1, of ps] show ?case by simp
qed

lemma admitted_in_snoc:
  "length rs = length ps \<Longrightarrow>
     admitted_in lo hi (ps @ [q]) (rs @ [r]) =
       admitted_in lo hi ps rs + (if lo \<le> snd q \<and> snd q < hi \<and> admitted r then 1 else 0)"
  by (simp add: admitted_in_def)

lemma filter_length_mono:
  "(\<And>x. P x \<Longrightarrow> Q x) \<Longrightarrow> length (filter P xs) \<le> length (filter Q xs)"
  by (induction xs) auto

lemma admitted_by_le:
  "admitted_by uid lo hi ps rs \<le> admitted_in lo hi ps rs"
  unfolding admitted_by_def admitted_in_def by (rule filter_length_mono) auto

lemma counter_fresh_set_by:
  "counter_fresh u t0 c = counter_set_by t0 c"
  by (simp add: counter_fresh_def counter_set_by_def limiter_key_def scoreUpdate_key score_update_key_def)

lemma next_in_window_refused:
  assumes up: "redis_up (cache s)" and srt: "sorted (map snd (ps @ [(rq, t)]))"
    and c0: "counter_set_by t0 (cache s)" and ge: "list_all (\<lambda>p. t0 \<le> snd p) (ps @ [(rq, t)])"
    and w: "w \<le> t" "t < w + 60000"
    and full: "10 \<le> admitted_in w (w + 60000) ps (fst (run_posts E ps s))"
    and v: "authorization rq = Verified u"
    and ok: "body_schema E \<longrightarrow> schema_valid (json_body rq)"
  shows "fst (post_update E rq t (snd (run_posts E ps s))) = Reply 429 (TooManyRequests 60)"
proof -
  let ?s1 = "snd (run_posts E ps s)"
  let ?r = "fst (post_update E rq t ?s1)"
  have run: "fst (run_posts E (ps @ [(rq, t)]) s) = fst (run_posts E ps s) @ [?r]"
    by (simp add: run_posts_append Let_def split: prod.splits)
  from window_bound[OF up srt c0 ge, of w E]
  have "admitted_in w (w + 60000) (ps @ [(rq, t)]) (fst (run_posts E ps s) @ [?r]) \<le> 10"
    by (simp only: run)
  with full w have na: "\<not> admitted ?r"
    by (simp add: admitted_in_snoc run_posts_length split: if_splits)
  have up1: "redis_up (cache ?s1)" using up by (rule run_posts_up)
  show ?thesis
  proof (cases "score_update_count (cache ?s1) t < 10")
    case True
    from post_update_admitted[OF up1 v True ok] na show ?thesis by simp
  next
    case False
    then have "10 \<le> score_update_count (cache ?s1) t" by simp
    from post_update_limited[OF up1 v this ok] show ?thesis by simp
  qed
qed

text \<open>
  Against claim C9 as stated: the check is a read followed by a separate
  increment.  After nine admitted requests, two requests whose reads both see the
  count 9 are both admitted, and the counter then stands at 11, all within ten
  milliseconds.
\<close>

theorem overlapped_hooks_counterexample:
  "fst (run_hooks scoreUpdate_limiter nine_hooks empty_cache)
     = [Continue, Continue, Continue, Continue, Continue, Continue, Continue, Continue, Continue]
   \<and> fst (overlapped_pair scoreUpdate_limiter (Some alice) (Some alice) 1705314601009
           (snd (run_hooks scoreUpdate_limiter nine_hooks empty_cache))) = Continue
   \<and> fst (snd (overlapped_pair scoreUpdate_limiter (Some alice) (Some alice) 1705314601009
           (snd (run_hooks scoreUpdate_limiter nine_hooks empty_cache)))) = Continue
   \<and> getRateLimit (snd (snd (overlapped_pair scoreUpdate_limiter (Some alice) (Some alice) 1705314601009
           (snd (run_hooks scoreUpdate_limiter nine_hooks empty_cache)))))
         (keyGenerator scoreUpdate_limiter (Some alice)) 1705314601010 = 11"
  by (simp add: model_defs sample_defs overlapped_pair_def Let_def)

text \<open>
  Claim C9, amended.  With Redis reachable and requests handled one after another
  in the order of their arrival times, for every identity at most 10 of its
  requests get past the limiter of the update route within any window
  \<open>[w, w + 60 s)\<close>, and a request of that identity (one with a verified token, and
  with a body that passes the schema where the route has one) that arrives in a
  window in which 10 of its requests were already admitted is answered 429.  The
  counter key of the identity may be absent at the start, or present with an
  expiry set at or before the first arrival.
\<close>

theorem sequential_rate_limit:
  "(redis_up (cache s) \<and> sorted (map snd ps) \<and> counter_fresh u t0 (cache s)
      \<and> list_all (\<lambda>p. t0 \<le> snd p) ps \<longrightarrow>
        admitted_by (auth_userId u) w (w + 60000) ps (fst (run_posts E ps s)) \<le> 10)
   \<and> (redis_up (cache s) \<and> sorted (map snd (ps @ [(rq, t)])) \<and> counter_fresh u t0 (cache s)
      \<and> list_all (\<lambda>p. t0 \<le> snd p) (ps @ [(rq, t)]) \<and> w \<le> t \<and> t < w + 60000
      \<and> admitted_by (auth_userId u) w (w + 60000) ps (fst (run_posts E ps s)) = 10
      \<and> authorization rq = Verified u
      \<and> (body_schema E \<longrightarrow> schema_valid (json_body rq)) \<longrightarrow>
        fst (post_update E rq t (snd (run_posts E ps s))) = Reply 429 (TooManyRequests 60))"
proof (intro conjI impI)
  assume "redis_up (cache s) \<and> sorted (map snd ps) \<and> counter_fresh u t0 (cache s)
      \<and> list_all (\<lambda>p. t0 \<le> snd p) ps"
  then have "admitted_in w (w + 60000) ps (fst (run_posts E ps s)) \<le> 10"
    using window_bound[of s ps t0 w E] by (simp add: counter_fresh_set_by)
  with admitted_by_le[of "auth_userId u" w "w + 60000" ps "fst (run_posts E ps s)"]
  show "admitted_by (auth_userId u) w (w + 60000) ps (fst (run_posts E ps s)) \<le> 10" by simp
next
  assume a: "redis_up (cache s) \<and> sorted (map snd (ps @ [(rq, t)])) \<and> counter_fresh u t0 (cache s)
      \<and> list_all (\<lambda>p. t0 \<le> snd p) (ps @ [(rq, t)]) \<and> w \<le> t \<and> t < w + 60000
      \<and> admitted_by (auth_userId u) w (w + 60000) ps (fst (run_posts E ps s)) = 10
      \<and> authorization rq = Verified u
      \<and> (body_schema E \<longrightarrow> schema_valid (json_body rq))"
  then have full: "10 \<le> admitted_in w (w + 60000) ps (fst (run_posts E ps s))"
    using admitted_by_le[of "auth_userId u" w "w + 60000" ps "fst (run_posts E ps s)"] by simp
  from a have c0: "counter_set_by t0 (cache s)" by (simp add: counter_fresh_set_by)
  from a next_in_window_refused[OF _ _ c0 _ _ _ full, of rq t u]
  show "fst (post_update E rq t (snd (run_posts E ps s))) = Reply 429 (TooManyRequests 60)"
    by blast
qed

text \<open>
  Scenario S4 for C9: ten requests of alice are admitted within ten milliseconds,
  her eleventh in the same window is answered 429.
\<close>

theorem sequential_rate_limit_witness:
  "redis_up (cache alice_system) \<and> sorted (map snd (ten_posts @ [(post50, 1705314601010)]))
   \<and> counter_fresh alice 1705314601000 (cache alice_system)
   \<and> list_all (\<lambda>p. 1705314601000 \<le> snd p) (ten_posts @ [(post50, 1705314601010)])
   \<and> admitted_by ''alice'' 1705314601000 (1705314601000 + 60000) ten_posts
        (fst (run_posts toy_setting ten_posts alice_system)) = 10
   \<and> authorization post50 = Verified alice
   \<and> schema_valid (json_body post50)
   \<and> fst (post_update toy_setting post50 1705314601010
        (snd (run_posts toy_setting ten_posts alice_system))) = Reply 429 (TooManyRequests 60)
   \<and> admitted_by ''alice'' 1705314601000 (1705314601000 + 60000) (ten_posts @ [(post50, 1705314601010)])
        (fst (run_posts toy_setting (ten_posts @ [(post50, 1705314601010)]) alice_system)) \<le> 10"
proof -
  have 1: "redis_up (cache alice_system)" by (simp add: sample_defs)
  have 2: "sorted (map snd (ten_posts @ [(post50, 1705314601010)]))" by (simp add: ten_posts_def)
  have 3: "counter_fresh alice 1705314601000 (cache alice_system)"
    by (simp add: counter_fresh_def sample_defs)
  have 4: "list_all (\<lambda>p. 1705314601000 \<le> snd p) (ten_posts @ [(post50, 1705314601010)])"
    by (simp add: ten_posts_def)
  have 5: "admitted_by ''alice'' 1705314601000 (1705314601000 + 60000) ten_posts
        (fst (run_posts toy_setting ten_posts alice_system)) = 10"
    by (simp add: model_defs sample_defs admitted_by_def admitted_def sent_by_def Let_def)
  have 6: "authorization post50 = Verified alice" by (simp add: post50_def)
  have 7: "schema_valid (json_body post50)" by (simp add: schema_valid_def post50_def)
  have 8: "auth_userId alice = ''alice''" by (simp add: alice_def)
  from sequential_rate_limit[where s = alice_system and ps = ten_posts and rq = post50
      and t = 1705314601010 and ?t0.0 = 1705314601000 and w = 1705314601000 and E = toy_setting
      and u = alice] 1 2 3 4 5 6 7 8
  have "fst (post_update toy_setting post50 1705314601010
        (snd (run_posts toy_setting ten_posts alice_system))) = Reply 429 (TooManyRequests 60)"
    by simp
  moreover from sequential_rate_limit[where s = alice_system and ps = "ten_posts @ [(post50, 1705314601010)]"
      and ?t0.0 = 1705314601000 and w = 1705314601000 and E = toy_setting and u = alice] 1 2 3 4 8
  have "admitted_by ''alice'' 1705314601000 (1705314601000 + 60000) (ten_posts @ [(post50, 1705314601010)])
        (fst (run_posts toy_setting (ten_posts @ [(post50, 1705314601010)]) alice_system)) \<le> 10"
    by simp
  ultimately show ?thesis using 1 2 3 4 5 6 7 by blast
qed

subsection \<open>The order of a ranking\<close>

lemma ranks_before_key:
  "ranks_before (to_entry d x) (to_entry d y) = (order_key (snd x) \<le> order_key (snd y))"
  by (auto simp: ranks_before_def to_entry_def order_key_def less_eq_prod_def)

lemma sorted_findMany:
  "sorted (map order_key (findMany_ordered k d))"
  unfolding findMany_ordered_def take_map[symmetric]
  by (rule sorted_wrt_take) (rule sorted_sort_key)

lemma map_snd_of_zip:
  "length xs = length ys \<Longrightarrow> map (\<lambda>x. f (snd x)) (zip xs ys) = map f ys"
  by (induction xs ys rule: list_induct2) simp_all

lemma load_top_sorted:
  "sorted_wrt ranks_before (load_top k d)"
proof -
  let ?rows = "findMany_ordered k d"
  let ?zs = "zip [0 ..< length ?rows] ?rows"
  have "map (\<lambda>x. order_key (snd x)) ?zs = map order_key ?rows"
    by (rule map_snd_of_zip) simp
  then have "sorted (map (\<lambda>x. order_key (snd x)) ?zs)"
    using sorted_findMany[of k d] by (simp only:)
  then have "sorted_wrt (\<lambda>x y. order_key (snd x) \<le> order_key (snd y)) ?zs"
    by (simp only: sorted_map)
  then show ?thesis
    by (simp add: load_top_def Let_def sorted_wrt_map ranks_before_key)
qed

lemma load_top_length:
  "length (load_top k d) \<le> k"
  by (simp add: load_top_def Let_def findMany_ordered_def)

lemma load_top_ok: "ranking_ok (load_top 10 d)"
  using load_top_sorted[of 10 d] load_top_length[of 10 d] by (simp add: ranking_ok_def)

lemma getTopScores_ok:
  assumes "cached_ok s"
  shows "ranking_ok (fst (getTopScores 10 s)) \<and> cached_ok (snd (getTopScores 10 s))"
  using assms load_top_ok[of "db s"]
  by (auto simp: getTopScores_def getScoreboard_def setScoreboard_def cached_ok_def Let_def
      split: option.splits)

lemma getTopScores_rankings:
  assumes "rankings_ok s"
  shows "ranking_ok (fst (getTopScores 10 s)) \<and> rankings_ok (snd (getTopScores 10 s))"
  using assms getTopScores_ok[of s] getTopScores_frame[of 10 s] by (simp add: rankings_ok_def)

lemma announce_rankings:
  assumes "rankings_ok s"
  shows "rankings_ok (broadcastScoreboardUpdate (fst (getTopScores 10 s)) (snd (getTopScores 10 s)))"
  using getTopScores_rankings[OF assms]
  by (simp add: rankings_ok_def cached_ok_def broadcastScoreboardUpdate_def)

lemma rankings_ok_cache:
  "rankings_ok s \<Longrightarrow> scoreboard_top10 c = scoreboard_top10 (cache s) \<or> scoreboard_top10 c = None \<Longrightarrow>
     rankings_ok (s\<lparr>cache := c\<rparr>)"
  by (auto simp: rankings_ok_def cached_ok_def)

lemma cache_ops_scoreboard:
  "scoreboard_top10 (setUserScore uid v c) = scoreboard_top10 c"
  "scoreboard_top10 (invalidateUserScore uid c) = scoreboard_top10 c"
  "scoreboard_top10 (invalidateScoreboard c) = scoreboard_top10 c \<or> scoreboard_top10 (invalidateScoreboard c) = None"
  "scoreboard_top10 (snd (incrementRateLimit key ttl now c)) = scoreboard_top10 c"
  by (simp_all add: setUserScore_def invalidateUserScore_def invalidateScoreboard_def
        incrementRateLimit_def Let_def)

lemma rateLimit_scoreboard:
  "scoreboard_top10 (snd (rateLimit opts user now c)) = scoreboard_top10 c"
  by (simp add: rateLimit_def rateLimit_decide_def Let_def cache_ops_scoreboard)

lemma updateScore_rankings:
  assumes "rankings_ok s"
  shows "rankings_ok (snd (updateScore E uid req ip' now s))"
proof -
  obtain res s1 where u: "updateScore E uid req ip' now s = (res, s1)"
    by (cases "updateScore E uid req ip' now s") auto
  show ?thesis
  proof (cases res)
    case (Inl e)
    with u have "s1 = s" using updateScore_error_unchanged by blast
    with u assms show ?thesis by simp
  next
    case (Inr v)
    with u have u': "updateScore E uid req ip' now s = (Inr v, s1)" by simp
    from updateScore_ok[OF u']
    obtain row :: score_row where c: "cache s1 = setUserScore uid (score row)
        (invalidateUserScore uid (invalidateScoreboard (cache s)))"
      and b: "broadcasts s1 = broadcasts s" by blast
    from c cache_ops_scoreboard(3)[of "cache s"]
    have "scoreboard_top10 (cache s1) = scoreboard_top10 (cache s) \<or> scoreboard_top10 (cache s1) = None"
      by (simp add: cache_ops_scoreboard)
    with assms b u show ?thesis by (auto simp: rankings_ok_def cached_ok_def)
  qed
qed

lemma controller_rankings:
  assumes "rankings_ok s"
  shows "rankings_ok (snd (controller_updateScore E user b ip' now s))"
proof -
  obtain r s' where c: "controller_updateScore E user b ip' now s = (r, s')"
    by (cases "controller_updateScore E user b ip' now s") auto
  from controller_cases[OF c] show ?thesis
  proof
    assume "status r = 400 \<and> s' = s"
    with c assms show ?thesis by simp
  next
    assume "\<exists>aid inc ts h res s1.
            body_actionId b = Some aid \<and> body_scoreIncrement b = Some inc \<and>
                  body_timestamp b = Some ts \<and> body_actionHash b = Some h \<and>
            updateScore E (auth_userId user)
               \<lparr>actionId = aid, scoreIncrement = inc, timestamp = ts, actionHash = h\<rparr> ip' now s
              = (Inr res, s1) \<and>
            r = Reply 200 (UpdateSuccess res) \<and>
            s' = broadcastScoreboardUpdate (fst (getTopScores 10 s1)) (snd (getTopScores 10 s1))"
    then obtain aid inc ts h res s1 where
      u: "updateScore E (auth_userId user)
               \<lparr>actionId = aid, scoreIncrement = inc, timestamp = ts, actionHash = h\<rparr> ip' now s
              = (Inr res, s1)" and
      s': "s' = broadcastScoreboardUpdate (fst (getTopScores 10 s1)) (snd (getTopScores 10 s1))"
      by blast
    from updateScore_rankings[OF assms, of E "auth_userId user"
        "\<lparr>actionId = aid, scoreIncrement = inc, timestamp = ts, actionHash = h\<rparr>" ip' now] u
    have "rankings_ok s1" by simp
    from announce_rankings[OF this] s' c show ?thesis by simp
  qed
qed

lemma post_update_rankings:
  assumes "rankings_ok s"
  shows "rankings_ok (snd (post_update E rq now s))"
proof (cases "body_schema E \<and> \<not> schema_valid (json_body rq)")
  case True
  with assms show ?thesis by (simp add: post_update_def)
next
  case False
  then have "body_schema E \<longrightarrow> schema_valid (json_body rq)" by simp
  note hooks = post_update_hooks[OF this, of now s]
  show ?thesis
  proof (cases "authenticateToken (authorization rq)")
    case (Inl a)
    with assms hooks show ?thesis by simp
  next
    case (Inr user)
    obtain hr c' where rl: "rateLimit scoreUpdate_limiter (Some user) now (cache s) = (hr, c')"
      by (cases "rateLimit scoreUpdate_limiter (Some user) now (cache s)") auto
    from rateLimit_scoreboard[of scoreUpdate_limiter "Some user" now "cache s"] rl
    have "scoreboard_top10 c' = scoreboard_top10 (cache s)" by simp
    with assms have ok: "rankings_ok (s\<lparr>cache := c'\<rparr>)" by (intro rankings_ok_cache) simp_all
    show ?thesis
    proof (cases hr)
      case (Sent x)
      with rl Inr ok hooks show ?thesis by simp
    next
      case Continue
      with rl Inr hooks controller_rankings[OF ok, of E user "json_body rq" "request_ip rq" now]
      show ?thesis by simp
    qed
  qed
qed

lemma getUserScore_rankings:
  assumes "rankings_ok s"
  shows "rankings_ok (snd (getUserScore uid now s))"
  using assms
  by (auto simp: getUserScore_def rankings_ok_def cached_ok_def cache_ops_scoreboard
      split: option.splits)

lemma reachable_rankings:
  "reachable E s \<Longrightarrow> rankings_ok s"
proof (induction rule: reachable.induct)
  case (start c d)
  then show ?case by (simp add: rankings_ok_def cached_ok_def)
next
  case (update s rq now)
  then show ?case by (simp add: post_update_rankings)
next
  case (scoreboard s)
  then show ?case by (simp add: getTopScores_rankings)
next
  case (user_score s uid now)
  then show ?case by (simp add: getUserScore_rankings)
next
  case (store s d)
  then show ?case by (simp add: rankings_ok_def cached_ok_def)
next
  case (expire s)
  then show ?case by (simp add: rankings_ok_def cached_ok_def)
next
  case (other_keys s up us rl)
  then show ?case by (simp add: rankings_ok_def cached_ok_def)
next
  case (announce s)
  then show ?case by (simp add: announce_rankings)
qed

text \<open>
  Claim C5.  In every state the server can reach, the ranking \<^verbatim>\<open>getTopScores(10)\<close>
  returns, from the cache or from the database, is sorted by score descending with
  ties broken by the earlier last update, and has at most 10 entries; so is every
  ranking that was broadcast.  A ranking loaded from the database with any limit
  \<open>k\<close> is sorted and has at most \<open>k\<close> entries.
\<close>

theorem rankings_in_order:
  "(reachable E s \<longrightarrow>
      sorted_wrt ranks_before (fst (getTopScores 10 s)) \<and> length (fst (getTopScores 10 s)) \<le> 10
      \<and> list_all (\<lambda>R. sorted_wrt ranks_before R \<and> length R \<le> 10) (broadcasts s))
   \<and> sorted_wrt ranks_before (load_top k d) \<and> length (load_top k d) \<le> k"
proof (intro conjI impI)
  assume r: "reachable E s"
  from getTopScores_rankings[OF reachable_rankings[OF r]]
  show "sorted_wrt ranks_before (fst (getTopScores 10 s))" "length (fst (getTopScores 10 s)) \<le> 10"
    by (simp_all add: ranking_ok_def)
  from reachable_rankings[OF r]
  show "list_all (\<lambda>R. sorted_wrt ranks_before R \<and> length R \<le> 10) (broadcasts s)"
    by (simp add: rankings_ok_def ranking_ok_def[abs_def])
next
  show "sorted_wrt ranks_before (load_top k d)" by (rule load_top_sorted)
  show "length (load_top k d) \<le> k" by (rule load_top_length)
qed

text \<open>
  Scenario S3 for C5: bob and carol both have 100 points and bob's update is the
  earlier one, so bob is ranked first; and the ranking broadcast after alice's
  update.
\<close>

theorem rankings_in_order_witness:
  "reachable toy_setting \<lparr>db = tie_db, cache = empty_cache, broadcasts = []\<rparr>
   \<and> fst (getTopScores 10 \<lparr>db = tie_db, cache = empty_cache, broadcasts = []\<rparr>)
       = [\<lparr>rank = 1, entry_userId = ''bob'', entry_username = ''Bob'', entry_score = 100, entry_lastUpdated = 1000\<rparr>,
          \<lparr>rank = 2, entry_userId = ''carol'', entry_username = ''Carol'', entry_score = 100, entry_lastUpdated = 2000\<rparr>,
          \<lparr>rank = 3, entry_userId = ''dave'', entry_username = ''Dave'', entry_score = 40, entry_lastUpdated = 500\<rparr>]
   \<and> sorted_wrt ranks_before (fst (getTopScores 10 \<lparr>db = tie_db, cache = empty_cache, broadcasts = []\<rparr>))
   \<and> reachable toy_setting (snd (post_update toy_setting post50 1705314601000 alice_system))
   \<and> broadcasts (snd (post_update toy_setting post50 1705314601000 alice_system))
       = [[\<lparr>rank = 1, entry_userId = ''alice'', entry_username = ''Alice'', entry_score = 50,
            entry_lastUpdated = 1705314601000\<rparr>]]
   \<and> list_all (\<lambda>R. sorted_wrt ranks_before R \<and> length R \<le> 10)
        (broadcasts (snd (post_update toy_setting post50 1705314601000 alice_system)))"
proof -
  have r1: "reachable toy_setting \<lparr>db = tie_db, cache = empty_cache, broadcasts = []\<rparr>"
    by (rule reachable.start) (simp add: empty_cache_def)
  have "reachable toy_setting alice_system"
    unfolding alice_system_def by (rule reachable.start) (simp add: empty_cache_def)
  then have r2: "reachable toy_setting (snd (post_update toy_setting post50 1705314601000 alice_system))"
    by (rule reachable.update)
  have e1: "fst (getTopScores 10 \<lparr>db = tie_db, cache = empty_cache, broadcasts = []\<rparr>)
       = [\<lparr>rank = 1, entry_userId = ''bob'', entry_username = ''Bob'', entry_score = 100, entry_lastUpdated = 1000\<rparr>,
          \<lparr>rank = 2, entry_userId = ''carol'', entry_username = ''Carol'', entry_score = 100, entry_lastUpdated = 2000\<rparr>,
          \<lparr>rank = 3, entry_userId = ''dave'', entry_username = ''Dave'', entry_score = 40, entry_lastUpdated = 500\<rparr>]"
    by (simp add: model_defs sample_defs less_eq_prod_def Let_def upt_rec)
  have e2: "broadcasts (snd (post_update toy_setting post50 1705314601000 alice_system))
       = [[\<lparr>rank = 1, entry_userId = ''alice'', entry_username = ''Alice'', entry_score = 50,
            entry_lastUpdated = 1705314601000\<rparr>]]"
    by (simp add: model_defs sample_defs digits.simps less_eq_prod_def Let_def)
  from r1 rankings_in_order[where E = toy_setting
      and s = "\<lparr>db = tie_db, cache = empty_cache, broadcasts = []\<rparr>"]
  have s1: "sorted_wrt ranks_before (fst (getTopScores 10 \<lparr>db = tie_db, cache = empty_cache, broadcasts = []\<rparr>))"
    by blast
  from r2 rankings_in_order[where E = toy_setting
      and s = "snd (post_update toy_setting post50 1705314601000 alice_system)"]
  have s2: "list_all (\<lambda>R. sorted_wrt ranks_before R \<and> length R \<le> 10)
        (broadcasts (snd (post_update toy_setting post50 1705314601000 alice_system)))"
    by blast
  from r1 r2 e1 e2 s1 s2 show ?thesis by blast
qed

end
